theory Spec2Isabelle
  imports Main "HOL-Library.Sublist"
begin

section \<open>Python strings\<close>

text \<open>
  A Python \<open>str\<close> is modelled as a \<open>string\<close> whose characters are the code points
  below 256. On these code points \<open>str.isspace\<close>, the pattern classes \<open>\s\<close> and
  \<open>\d\<close> of \<open>re\<close>, \<open>str.lower\<close> and case-insensitive matching of an ASCII
  pattern letter are the functions below.
\<close>

abbreviation NL :: char where
  "NL \<equiv> CHR 0x0A"

definition WHITESPACE :: string where
  "WHITESPACE =
     [CHR 0x09, CHR 0x0A, CHR 0x0B, CHR 0x0C, CHR 0x0D, CHR 0x1C, CHR 0x1D, CHR 0x1E,
      CHR 0x1F, CHR 0x20, CHR 0x85, CHR 0xA0]"

definition py_isspace :: "char \<Rightarrow> bool" where
  "py_isspace c = (c \<in> set WHITESPACE)"

definition py_isdigit :: "char \<Rightarrow> bool" where
  "py_isdigit c = (c \<in> set ''0123456789'')"

definition UPPERCASE :: string where
  "UPPERCASE =
     ''ABCDEFGHIJKLMNOPQRSTUVWXYZ'' @
     [CHR 0xC0, CHR 0xC1, CHR 0xC2, CHR 0xC3, CHR 0xC4, CHR 0xC5, CHR 0xC6, CHR 0xC7,
      CHR 0xC8, CHR 0xC9, CHR 0xCA, CHR 0xCB, CHR 0xCC, CHR 0xCD, CHR 0xCE, CHR 0xCF,
      CHR 0xD0, CHR 0xD1, CHR 0xD2, CHR 0xD3, CHR 0xD4, CHR 0xD5, CHR 0xD6, CHR 0xD8,
      CHR 0xD9, CHR 0xDA, CHR 0xDB, CHR 0xDC, CHR 0xDD, CHR 0xDE]"

definition LOWERCASE :: string where
  "LOWERCASE =
     ''abcdefghijklmnopqrstuvwxyz'' @
     [CHR 0xE0, CHR 0xE1, CHR 0xE2, CHR 0xE3, CHR 0xE4, CHR 0xE5, CHR 0xE6, CHR 0xE7,
      CHR 0xE8, CHR 0xE9, CHR 0xEA, CHR 0xEB, CHR 0xEC, CHR 0xED, CHR 0xEE, CHR 0xEF,
      CHR 0xF0, CHR 0xF1, CHR 0xF2, CHR 0xF3, CHR 0xF4, CHR 0xF5, CHR 0xF6, CHR 0xF8,
      CHR 0xF9, CHR 0xFA, CHR 0xFB, CHR 0xFC, CHR 0xFD, CHR 0xFE]"

definition py_lower_char :: "char \<Rightarrow> char" where
  "py_lower_char c = (case map_of (zip UPPERCASE LOWERCASE) c of None \<Rightarrow> c | Some l \<Rightarrow> l)"

definition py_lower :: "string \<Rightarrow> string" where
  "py_lower s = map py_lower_char s"

definition py_strip :: "string \<Rightarrow> string" where
  "py_strip s = rev (dropWhile py_isspace (rev (dropWhile py_isspace s)))"

text \<open>\<open>s.split('\n')\<close>: the lines of \<open>s\<close>; the empty string has one empty line.\<close>

fun py_split_nl :: "string \<Rightarrow> string list" where
  "py_split_nl [] = [[]]"
| "py_split_nl (c # cs) =
     (if c = NL then [] # py_split_nl cs
      else (case py_split_nl cs of
              [] \<Rightarrow> [[c]]
            | l # ls \<Rightarrow> (c # l) # ls))"

definition py_endswith_dot :: "string \<Rightarrow> bool" where
  "py_endswith_dot s = (s \<noteq> [] \<and> last s = CHR ''.'')"

section \<open>Regular expressions, as \<open>re\<close> matches them\<close>

text \<open>
  The patterns of the analyzer are built from character classes, literals, greedy and
  lazy repetition of a class, alternatives, one capture group, a lookahead and the
  anchors. A pattern is matched by backtracking: \<open>matches\<close> lists the states in which
  a match of the pattern can end, in the order in which \<open>re\<close> tries them, so that the
  head of the list is the match that \<open>re\<close> reports.
\<close>

datatype cclass = Lit char | Space | Digit | AnyChar | Union cclass cclass

record flags =
  ignorecase :: bool
  dotall :: bool
  multiline :: bool

fun cmatch :: "flags \<Rightarrow> cclass \<Rightarrow> char \<Rightarrow> bool" where
  "cmatch f (Lit a) c =
     (if ignorecase f then py_lower_char c = py_lower_char a else c = a)"
| "cmatch f Space c = py_isspace c"
| "cmatch f Digit c = py_isdigit c"
| "cmatch f AnyChar c = (dotall f \<or> c \<noteq> NL)"
| "cmatch f (Union a b) c = (cmatch f a c \<or> cmatch f b c)"

datatype regex =
    Chars cclass
  | Lits string
  | Star cclass
  | Plus cclass
  | LazyPlus cclass
  | Opt cclass
  | Seq "regex list"
  | Alt "regex list"
  | Group nat regex
  | Lookahead regex
  | Bol
  | Eol

text \<open>
  A matching state: the character before the current position (none at the start of
  the text), the text from the current position on, and the groups captured so far.
\<close>

record mstate =
  prev :: "char option"
  rest :: string
  groups :: "nat \<rightharpoonup> string"

definition at :: "mstate \<Rightarrow> char option \<times> string \<Rightarrow> mstate" where
  "at s p = s\<lparr>prev := fst p, rest := snd p\<rparr>"

fun lits :: "flags \<Rightarrow> string \<Rightarrow> char option \<Rightarrow> string \<Rightarrow> (char option \<times> string) list" where
  "lits f [] pv s = [(pv, s)]"
| "lits f (a # as) pv [] = []"
| "lits f (a # as) pv (c # cs) = (if cmatch f (Lit a) c then lits f as (Some c) cs else [])"

fun one :: "(char \<Rightarrow> bool) \<Rightarrow> char option \<Rightarrow> string \<Rightarrow> (char option \<times> string) list" where
  "one p pv [] = []"
| "one p pv (c # cs) = (if p c then [(Some c, cs)] else [])"

fun greedy :: "(char \<Rightarrow> bool) \<Rightarrow> char option \<Rightarrow> string \<Rightarrow> (char option \<times> string) list" where
  "greedy p pv [] = [(pv, [])]"
| "greedy p pv (c # cs) = (if p c then greedy p (Some c) cs else []) @ [(pv, c # cs)]"

fun lazy :: "(char \<Rightarrow> bool) \<Rightarrow> char option \<Rightarrow> string \<Rightarrow> (char option \<times> string) list" where
  "lazy p pv [] = [(pv, [])]"
| "lazy p pv (c # cs) = (pv, c # cs) # (if p c then lazy p (Some c) cs else [])"

fun matches :: "flags \<Rightarrow> regex \<Rightarrow> mstate \<Rightarrow> mstate list"
  and matches_seq :: "flags \<Rightarrow> regex list \<Rightarrow> mstate \<Rightarrow> mstate list"
  and matches_alt :: "flags \<Rightarrow> regex list \<Rightarrow> mstate \<Rightarrow> mstate list" where
  "matches f (Chars k) s = map (at s) (one (cmatch f k) (prev s) (rest s))"
| "matches f (Lits as) s = map (at s) (lits f as (prev s) (rest s))"
| "matches f (Star k) s = map (at s) (greedy (cmatch f k) (prev s) (rest s))"
| "matches f (Plus k) s =
     map (at s) (concat (map (\<lambda>(pv, r). greedy (cmatch f k) pv r)
                             (one (cmatch f k) (prev s) (rest s))))"
| "matches f (LazyPlus k) s =
     map (at s) (concat (map (\<lambda>(pv, r). lazy (cmatch f k) pv r)
                             (one (cmatch f k) (prev s) (rest s))))"
| "matches f (Opt k) s = map (at s) (one (cmatch f k) (prev s) (rest s)) @ [s]"
| "matches f (Seq rs) s = matches_seq f rs s"
| "matches f (Alt rs) s = matches_alt f rs s"
| "matches f (Group n r) s =
     map (\<lambda>m. m\<lparr>groups := (groups m)(n \<mapsto> take (length (rest s) - length (rest m)) (rest s))\<rparr>)
         (matches f r s)"
| "matches f (Lookahead r) s =
     (case matches f r s of [] \<Rightarrow> [] | m # _ \<Rightarrow> [s\<lparr>groups := groups m\<rparr>])"
| "matches f Bol s =
     (if prev s = None \<or> (multiline f \<and> prev s = Some NL) then [s] else [])"
| "matches f Eol s =
     (case rest s of
        [] \<Rightarrow> [s]
      | c # cs \<Rightarrow> if c = NL \<and> (multiline f \<or> cs = []) then [s] else [])"
| "matches_seq f [] s = [s]"
| "matches_seq f (r # rs) s = concat (map (matches_seq f rs) (matches f r s))"
| "matches_alt f [] s = []"
| "matches_alt f (r # rs) s = matches f r s @ matches_alt f rs s"

definition start :: "char option \<Rightarrow> string \<Rightarrow> mstate" where
  "start pv s = \<lparr>prev = pv, rest = s, groups = Map.empty\<rparr>"

text \<open>\<open>re.search\<close>: the first match at the leftmost position that has one.\<close>

fun search_from :: "flags \<Rightarrow> regex \<Rightarrow> char option \<Rightarrow> string \<Rightarrow> mstate option" where
  "search_from f r pv [] =
     (case matches f r (start pv []) of [] \<Rightarrow> None | m # _ \<Rightarrow> Some m)"
| "search_from f r pv (c # cs) =
     (case matches f r (start pv (c # cs)) of
        [] \<Rightarrow> search_from f r (Some c) cs
      | m # _ \<Rightarrow> Some m)"

definition re_search :: "flags \<Rightarrow> regex \<Rightarrow> string \<Rightarrow> mstate option" where
  "re_search f r s = search_from f r None s"

text \<open>\<open>match.group(n)\<close> of a group that took part in the match.\<close>

definition group :: "mstate \<Rightarrow> nat \<Rightarrow> string" where
  "group m n = (case groups m n of None \<Rightarrow> [] | Some g \<Rightarrow> g)"

text \<open>
  \<open>re.findall\<close> for a pattern with one group, and \<open>re.sub\<close>: the matches from left
  to right, each search starting where the match before ended. Both patterns they are
  used with match at least one character; after an empty match the functions move on
  by one character.
\<close>

function findall_from :: "flags \<Rightarrow> regex \<Rightarrow> char option \<Rightarrow> string \<Rightarrow> string list" where
  "findall_from f r pv s =
     (case matches f r (start pv s) of
        [] \<Rightarrow> (case s of [] \<Rightarrow> [] | c # cs \<Rightarrow> findall_from f r (Some c) cs)
      | m # _ \<Rightarrow>
          group m 1 #
          (if length (rest m) < length s then findall_from f r (prev m) (rest m)
           else (case s of [] \<Rightarrow> [] | c # cs \<Rightarrow> findall_from f r (Some c) cs)))"
  by pat_completeness auto
termination
  by (relation "measure (\<lambda>(f, r, pv, s). length s)") auto

definition re_findall :: "flags \<Rightarrow> regex \<Rightarrow> string \<Rightarrow> string list" where
  "re_findall f r s = findall_from f r None s"

function sub_from :: "flags \<Rightarrow> regex \<Rightarrow> string \<Rightarrow> char option \<Rightarrow> string \<Rightarrow> string" where
  "sub_from f r repl pv s =
     (case matches f r (start pv s) of
        [] \<Rightarrow> (case s of [] \<Rightarrow> [] | c # cs \<Rightarrow> c # sub_from f r repl (Some c) cs)
      | m # _ \<Rightarrow>
          repl @
          (if length (rest m) < length s then sub_from f r repl (prev m) (rest m)
           else (case s of [] \<Rightarrow> [] | c # cs \<Rightarrow> c # sub_from f r repl (Some c) cs)))"
  by pat_completeness auto
termination
  by (relation "measure (\<lambda>(f, r, repl, pv, s). length s)") auto

definition re_sub :: "flags \<Rightarrow> regex \<Rightarrow> string \<Rightarrow> string \<Rightarrow> string" where
  "re_sub f r repl s = sub_from f r repl None s"

section \<open>Python values\<close>

text \<open>
  The values that \<open>json.load\<close> produces and \<open>json.dumps\<close> accepts. A float is
  written by a decimal literal: \<open>PyFloat m e\<close> is the float nearest to \<open>m * 10 ^ e\<close>.
  A dictionary keeps its items in insertion order.
\<close>

datatype pyval =
    PyNone
  | PyBool bool
  | PyInt int
  | PyFloat int int
  | PyStr string
  | PyList "pyval list"
  | PyDict "(string \<times> pyval) list"

section \<open>Exceptions\<close>

text \<open>
  \<open>AIProviderError\<close> carries its message. \<open>KeyError\<close> and \<open>IndexError\<close> carry
  \<open>str(e)\<close>, which \<open>_parse_response\<close> puts into its message.
\<close>

datatype error =
    AIProviderError string
  | KeyError string
  | IndexError string
  | TypeError
  | AttributeError
  | ValueError

section \<open>Conversion of a digit string\<close>

text \<open>
  \<open>int(s)\<close> on a non-empty string of decimal digits, as the group \<^verbatim>\<open>(\d+)\<close> of the
  confidence pattern captures it. The interpreter refuses a string of more digits than
  \<open>sys.get_int_max_str_digits()\<close>, 4300 unless the interpreter is configured otherwise,
  with a \<open>ValueError\<close>; leading zeros count as digits.
\<close>

definition INT_MAX_STR_DIGITS :: nat where
  "INT_MAX_STR_DIGITS = 4300"

definition digits_value :: "string \<Rightarrow> int" where
  "digits_value s = foldl (\<lambda>a c. 10 * a + (of_char c - 48)) 0 s"

definition py_int :: "string \<Rightarrow> error + int" where
  "py_int s =
     (if length s > INT_MAX_STR_DIGITS then Inl ValueError else Inr (digits_value s))"

section \<open>Extraction of the analysis fields\<close>

record analysis =
  root_cause :: string
  suggested_fixes :: "string list"
  confidence :: int
  severity :: string
  tokens_used :: pyval

definition DOTALL_IGNORECASE :: flags where
  "DOTALL_IGNORECASE = \<lparr>ignorecase = True, dotall = True, multiline = False\<rparr>"

definition IGNORECASE :: flags where
  "IGNORECASE = \<lparr>ignorecase = True, dotall = False, multiline = False\<rparr>"

definition MULTILINE :: flags where
  "MULTILINE = \<lparr>ignorecase = False, dotall = False, multiline = True\<rparr>"

definition NOFLAGS :: flags where
  "NOFLAGS = \<lparr>ignorecase = False, dotall = False, multiline = False\<rparr>"

text \<open>\<^verbatim>\<open>[:\s]\<close>\<close>

definition colon_or_space :: cclass where
  "colon_or_space = Union (Lit CHR '':'') Space"

text \<open>\<^verbatim>\<open>ROOT CAUSE[:\s]*(.+?)(?=\n\s*SUGGESTED|$)\<close>\<close>

definition root_cause_re :: regex where
  "root_cause_re =
     Seq [Lits ''ROOT CAUSE'', Star colon_or_space, Group 1 (LazyPlus AnyChar),
          Lookahead (Alt [Seq [Chars (Lit NL), Star Space, Lits ''SUGGESTED''], Eol])]"

text \<open>\<^verbatim>\<open>SUGGESTED FIXES?[:\s]*(.+?)(?=CONFIDENCE|SEVERITY|$)\<close>\<close>

definition fixes_re :: regex where
  "fixes_re =
     Seq [Lits ''SUGGESTED FIXE'', Opt (Lit CHR ''S''), Star colon_or_space,
          Group 1 (LazyPlus AnyChar),
          Lookahead (Alt [Lits ''CONFIDENCE'', Lits ''SEVERITY'', Eol])]"

text \<open>\<^verbatim>\<open>(?:^|\n)\s*(?:\d+\.|\-|\*)\s*(.+)\<close>\<close>

definition bullet_re :: regex where
  "bullet_re =
     Seq [Alt [Bol, Chars (Lit NL)], Star Space,
          Alt [Seq [Plus Digit, Chars (Lit CHR ''.'')], Chars (Lit CHR ''-''),
               Chars (Lit CHR ''*'')],
          Star Space, Group 1 (Plus AnyChar)]"

text \<open>\<^verbatim>\<open>CONFIDENCE[:\s]*(\d+)%?\<close>\<close>

definition confidence_re :: regex where
  "confidence_re =
     Seq [Lits ''CONFIDENCE'', Star colon_or_space, Group 1 (Plus Digit),
          Opt (Lit CHR ''%'')]"

text \<open>\<^verbatim>\<open>SEVERITY[:\s]*(low|medium|high)\<close>\<close>

definition severity_re :: regex where
  "severity_re =
     Seq [Lits ''SEVERITY'', Star colon_or_space,
          Group 1 (Alt [Lits ''low'', Lits ''medium'', Lits ''high''])]"

text \<open>\<^verbatim>\<open>\s+\<close>\<close>

definition spaces_re :: regex where
  "spaces_re = Plus Space"

definition defaults :: "pyval \<Rightarrow> analysis" where
  "defaults t =
     \<lparr>root_cause = [], suggested_fixes = [], confidence = 50, severity = ''medium'',
      tokens_used = t\<rparr>"

definition scan_root_cause :: "string \<Rightarrow> analysis \<Rightarrow> analysis" where
  "scan_root_cause content a =
     (case re_search DOTALL_IGNORECASE root_cause_re content of
        None \<Rightarrow> a
      | Some m \<Rightarrow>
          let rc = py_strip (group m 1);
              rc = re_sub NOFLAGS spaces_re '' '' rc;
              rc = (if rc \<noteq> [] \<and> \<not> py_endswith_dot rc then rc @ ''.'' else rc)
          in a\<lparr>root_cause := rc\<rparr>)"

definition scan_fixes :: "string \<Rightarrow> analysis \<Rightarrow> analysis" where
  "scan_fixes content a =
     (case re_search DOTALL_IGNORECASE fixes_re content of
        None \<Rightarrow> a
      | Some m \<Rightarrow>
          let fixes = re_findall MULTILINE bullet_re (group m 1)
          in a\<lparr>suggested_fixes := filter (\<lambda>fix. fix \<noteq> []) (map py_strip fixes)\<rparr>)"

text \<open>
  The conversion at the confidence can raise, so this scan and everything built on it
  returns an exception or the analysis.
\<close>

definition scan_confidence :: "string \<Rightarrow> analysis \<Rightarrow> error + analysis" where
  "scan_confidence content a =
     (case re_search IGNORECASE confidence_re content of
        None \<Rightarrow> Inr a
      | Some m \<Rightarrow>
          (case py_int (group m 1) of
             Inl e \<Rightarrow> Inl e
           | Inr n \<Rightarrow> Inr (a\<lparr>confidence := min 100 (max 0 n)\<rparr>)))"

definition scan_severity :: "string \<Rightarrow> analysis \<Rightarrow> analysis" where
  "scan_severity content a =
     (case re_search IGNORECASE severity_re content of
        None \<Rightarrow> a
      | Some m \<Rightarrow> a\<lparr>severity := py_lower (group m 1)\<rparr>)"

text \<open>
  The four scans in the order of the source: an exception at the confidence leaves the
  function before the severity is looked for.
\<close>

definition scans :: "string \<Rightarrow> pyval \<Rightarrow> error + analysis" where
  "scans content t =
     (case scan_confidence content (scan_fixes content (scan_root_cause content (defaults t))) of
        Inl e \<Rightarrow> Inl e
      | Inr a \<Rightarrow> Inr (scan_severity content a))"

definition UNPARSEABLE :: string where
  "UNPARSEABLE = ''Failed to parse AI response. Please check the logs.''"

definition GENERIC_FIXES :: "string list" where
  "GENERIC_FIXES =
     [''Review the error logs for PostgreSQL connection issues'',
      ''Ensure PostgreSQL server is running and accessible'',
      ''Check database connection configuration'',
      ''Verify network connectivity to database server'']"

text \<open>
  The loop over the lines with its \<open>else\<close> branch: the first line whose stripped
  form is longer than 10 characters, stripped, or the fixed text when the loop ends
  without a \<open>break\<close>.
\<close>

fun first_long_line :: "string list \<Rightarrow> string" where
  "first_long_line [] = UNPARSEABLE"
| "first_long_line (line # lines) =
     (if py_strip line \<noteq> [] \<and> length (py_strip line) > 10 then py_strip line
      else first_long_line lines)"

definition fallback :: "string \<Rightarrow> analysis \<Rightarrow> analysis" where
  "fallback content a =
     (if root_cause a = [] \<and> suggested_fixes a = [] then
        let lines = py_split_nl (py_strip content);
            a = (if lines \<noteq> [] then a\<lparr>root_cause := first_long_line lines\<rparr> else a)
        in a\<lparr>suggested_fixes := GENERIC_FIXES\<rparr>
      else a)"

text \<open>
  \<open>_extract_analysis_fields\<close>, with \<open>AI_DEBUG\<close> unset (the debug branch only prints
  to standard error).
\<close>

definition extract_analysis_fields :: "string \<Rightarrow> pyval \<Rightarrow> error + analysis" where
  "extract_analysis_fields content t =
     (case scans content t of
        Inl e \<Rightarrow> Inl e
      | Inr a \<Rightarrow> Inr (fallback content a))"

section \<open>The catalog of models\<close>

text \<open>
  An entry of \<open>SUPPORTED_MODELS\<close>. No entry of the catalog has the key \<open>alias\<close>
  that \<open>_resolve_model_name\<close> asks for: \<open>config_alias\<close> is what \<open>config.get("alias")\<close>
  returns.
\<close>

record model_config =
  endpoint :: string
  max_tokens :: int
  cost_per_1k :: pyval
  config_alias :: "string option"

definition entry :: "string \<Rightarrow> int \<Rightarrow> int \<Rightarrow> int \<Rightarrow> model_config" where
  "entry e n m x = \<lparr>endpoint = e, max_tokens = n, cost_per_1k = PyFloat m x, config_alias = None\<rparr>"

definition OPENAI_MODELS :: "(string \<times> model_config) list" where
  "OPENAI_MODELS =
     [(''gpt-4o'', entry ''chat/completions'' 128000 5 (-3)),
      (''gpt-4o-mini'', entry ''chat/completions'' 128000 15 (-5)),
      (''gpt-4o-2024-11-20'', entry ''chat/completions'' 128000 25 (-4)),
      (''gpt-4o-2024-08-06'', entry ''chat/completions'' 128000 25 (-4)),
      (''gpt-4o-mini-2024-07-18'', entry ''chat/completions'' 128000 15 (-5)),
      (''o1-preview'', entry ''chat/completions'' 128000 15 (-3)),
      (''o1-preview-2024-09-12'', entry ''chat/completions'' 128000 15 (-3)),
      (''o1-mini'', entry ''chat/completions'' 128000 3 (-3)),
      (''o1-mini-2024-09-12'', entry ''chat/completions'' 128000 3 (-3)),
      (''gpt-4-turbo'', entry ''chat/completions'' 128000 1 (-2)),
      (''gpt-4-turbo-2024-04-09'', entry ''chat/completions'' 128000 1 (-2))]"

definition ANTHROPIC_MODELS :: "(string \<times> model_config) list" where
  "ANTHROPIC_MODELS =
     [(''claude-opus-4-20250514'', entry ''messages'' 4096 15 (-2)),
      (''claude-sonnet-4-20250514'', entry ''messages'' 4096 3 (-2)),
      (''claude-3-opus-20240229'', entry ''messages'' 4096 15 (-2)),
      (''claude-3-5-sonnet-20241022'', entry ''messages'' 8192 3 (-2)),
      (''claude-3-5-haiku-20241022'', entry ''messages'' 8192 25 (-4))]"

definition GEMINI_MODELS :: "(string \<times> model_config) list" where
  "GEMINI_MODELS =
     [(''gemini-2.0-flash'', entry ''generateContent'' 1000000 5 (-4)),
      (''gemini-2.0-pro-exp'', entry ''generateContent'' 2000000 2 (-3)),
      (''gemini-1.5-pro'', entry ''generateContent'' 2000000 2 (-3)),
      (''gemini-1.5-flash'', entry ''generateContent'' 1000000 5 (-4))]"

definition SUPPORTED_MODELS :: "(string \<times> (string \<times> model_config) list) list" where
  "SUPPORTED_MODELS =
     [(''openai'', OPENAI_MODELS), (''anthropic'', ANTHROPIC_MODELS),
      (''gemini'', GEMINI_MODELS)]"

section \<open>The analyzer\<close>

text \<open>
  The attributes of an \<open>AIAnalyzer\<close>. \<open>_setup_provider_config\<close> sets \<open>api_base\<close>
  and \<open>headers\<close> for the three providers it knows and leaves them unset otherwise.
\<close>

record analyzer =
  self_provider :: string
  self_max_tokens :: int
  self_api_key :: string
  self_model :: string
  self_model_config :: model_config
  self_api_base :: "string option"
  self_headers :: "(string \<times> string) list option"

text \<open>\<open>d[k]\<close> on a dictionary of the catalog.\<close>

definition lookup :: "(string \<times> 'a) list \<Rightarrow> string \<Rightarrow> error + 'a" where
  "lookup d k =
     (case map_of d k of
        None \<Rightarrow> Inl (KeyError ([CHR 0x27] @ k @ [CHR 0x27]))
      | Some v \<Rightarrow> Inr v)"

definition resolve_model_name :: "string \<Rightarrow> string \<Rightarrow> error + string" where
  "resolve_model_name provider model =
     (case lookup SUPPORTED_MODELS provider of
        Inl e \<Rightarrow> Inl e
      | Inr provider_models \<Rightarrow>
          if model \<in> set (map fst provider_models) then Inr model
          else (case find (\<lambda>(model_name, config). config_alias config = Some model) provider_models of
                  Some (model_name, config) \<Rightarrow> Inr model_name
                | None \<Rightarrow> Inr model))"

definition get_default_model :: "string \<Rightarrow> error + string" where
  "get_default_model provider =
     lookup [(''openai'', ''gpt-4o-mini''),
             (''anthropic'', ''claude-3-5-sonnet-20241022''),
             (''gemini'', ''gemini-1.5-flash'')] provider"

definition setup_provider_config :: "analyzer \<Rightarrow> analyzer" where
  "setup_provider_config a =
     (if self_provider a = ''openai'' then
        a\<lparr>self_api_base := Some ''https://api.openai.com/v1'',
          self_headers := Some [(''Authorization'', ''Bearer '' @ self_api_key a),
                                (''Content-Type'', ''application/json'')]\<rparr>
      else if self_provider a = ''anthropic'' then
        a\<lparr>self_api_base := Some ''https://api.anthropic.com/v1'',
          self_headers := Some [(''x-api-key'', self_api_key a),
                                (''Content-Type'', ''application/json''),
                                (''anthropic-version'', ''2023-06-01'')]\<rparr>
      else if self_provider a = ''gemini'' then
        a\<lparr>self_api_base := Some ''https://generativelanguage.googleapis.com/v1beta'',
          self_headers := Some [(''Content-Type'', ''application/json'')]\<rparr>
      else a)"

text \<open>
  \<open>AIAnalyzer.__init__\<close>. The first argument is the value of the environment variable
  \<open>AI_ERROR_ANALYSIS_API_KEY\<close>, \<open>None\<close> when it is not set.
\<close>

definition AIAnalyzer_init ::
  "string option \<Rightarrow> string \<Rightarrow> string option \<Rightarrow> int \<Rightarrow> error + analyzer" where
  "AIAnalyzer_init api_key provider model max_tokens' =
     (let p = py_lower provider in
      case api_key of
        None \<Rightarrow> Inl (AIProviderError (''API key not found for '' @ provider))
      | Some key \<Rightarrow>
          if key = [] then Inl (AIProviderError (''API key not found for '' @ provider))
          else if p \<notin> set (map fst SUPPORTED_MODELS) then
            Inl (AIProviderError (''Unsupported provider: '' @ provider))
          else
            (case (case model of
                     None \<Rightarrow> get_default_model p
                   | Some m \<Rightarrow> if m \<noteq> [] then resolve_model_name p m
                               else get_default_model p) of
               Inl e \<Rightarrow> Inl e
             | Inr m \<Rightarrow>
                 (case lookup SUPPORTED_MODELS p of
                    Inl e \<Rightarrow> Inl e
                  | Inr provider_models \<Rightarrow>
                      (case map_of provider_models m of
                         None \<Rightarrow>
                           Inl (AIProviderError
                                  (''Unsupported model '' @ [CHR 0x27] @ m @ [CHR 0x27] @
                                   '' for provider '' @ [CHR 0x27] @ p @ [CHR 0x27]))
                       | Some config \<Rightarrow>
                           Inr (setup_provider_config
                                  \<lparr>self_provider = p, self_max_tokens = max_tokens',
                                   self_api_key = key, self_model = m,
                                   self_model_config = config,
                                   self_api_base = None, self_headers = None\<rparr>)))))"

section \<open>Requests\<close>

text \<open>
  What the analyzer takes from outside the repository: \<open>str\<close> of a value that is
  not a string, \<open>json.dumps\<close>, \<open>json.loads\<close> (\<open>Inl\<close> is \<open>str\<close> of the
  \<open>JSONDecodeError\<close>) and \<open>urllib.request.urlopen\<close> followed by reading and decoding
  the reply. A request is its URL, its data and its headers.
\<close>

type_synonym request = "string \<times> string \<times> (string \<times> string) list"

datatype http_outcome =
    Body string
  | HTTPError int string
  | URLError string
  | Raised error

record world =
  py_str :: "pyval \<Rightarrow> string"
  json_dumps :: "pyval \<Rightarrow> string"
  json_loads :: "string \<Rightarrow> string + pyval"
  urlopen :: "request \<Rightarrow> http_outcome"

text \<open>
  \<open>_make_request\<close>. The last argument is the list of the requests passed to
  \<open>urlopen\<close> so far; the function returns it with its own request added when it
  calls \<open>urlopen\<close>.
\<close>

definition make_request ::
  "world \<Rightarrow> analyzer \<Rightarrow> string \<Rightarrow> pyval \<Rightarrow> (string \<times> string) list option \<Rightarrow>
   request list \<Rightarrow> (error + pyval) \<times> request list" where
  "make_request w a url data headers sent =
     (case (case headers of None \<Rightarrow> self_headers a | Some h \<Rightarrow> Some h) of
        None \<Rightarrow> (Inl AttributeError, sent)
      | Some hs \<Rightarrow>
          if \<not> prefix ''https://'' url then
            (Inl (AIProviderError ''Only HTTPS URLs allowed''), sent)
          else
            let req = (url, json_dumps w data, hs) in
            (case urlopen w req of
               Body response_data \<Rightarrow>
                 (case json_loads w response_data of
                    Inl e \<Rightarrow> Inl (AIProviderError (''Invalid JSON response: '' @ e))
                  | Inr v \<Rightarrow> Inr v)
             | HTTPError code error_body \<Rightarrow>
                 Inl (AIProviderError
                        (''HTTP '' @ py_str w (PyInt code) @ '': '' @ take 200 error_body @
                         ''...''))
             | URLError e \<Rightarrow> Inl (AIProviderError (''Network error: '' @ e))
             | Raised e \<Rightarrow> Inl e,
             sent @ [req]))"

definition openai_data :: "analyzer \<Rightarrow> string \<Rightarrow> pyval" where
  "openai_data a prompt =
     PyDict
       [(''model'', PyStr (self_model a)),
        (''messages'',
         PyList
           [PyDict [(''role'', PyStr ''system''),
                    (''content'',
                     PyStr ''You are an expert DevOps engineer analyzing CI/CD failures.'')],
            PyDict [(''role'', PyStr ''user''), (''content'', PyStr prompt)]]),
        (''max_tokens'',
         PyInt (min (self_max_tokens a) (max_tokens (self_model_config a)))),
        (''temperature'', PyFloat 1 (-1))]"

definition call_openai ::
  "world \<Rightarrow> analyzer \<Rightarrow> string \<Rightarrow> request list \<Rightarrow> (error + pyval) \<times> request list" where
  "call_openai w a prompt sent =
     (case self_api_base a of
        None \<Rightarrow> (Inl AttributeError, sent)
      | Some api_base \<Rightarrow>
          make_request w a (api_base @ ''/'' @ endpoint (self_model_config a))
            (openai_data a prompt) None sent)"

definition anthropic_data :: "analyzer \<Rightarrow> string \<Rightarrow> pyval" where
  "anthropic_data a prompt =
     PyDict
       [(''model'', PyStr (self_model a)),
        (''max_tokens'',
         PyInt (min (self_max_tokens a) (max_tokens (self_model_config a)))),
        (''messages'',
         PyList [PyDict [(''role'', PyStr ''user''), (''content'', PyStr prompt)]])]"

definition call_anthropic ::
  "world \<Rightarrow> analyzer \<Rightarrow> string \<Rightarrow> request list \<Rightarrow> (error + pyval) \<times> request list" where
  "call_anthropic w a prompt sent =
     (case self_api_base a of
        None \<Rightarrow> (Inl AttributeError, sent)
      | Some api_base \<Rightarrow>
          make_request w a (api_base @ ''/'' @ endpoint (self_model_config a))
            (anthropic_data a prompt) None sent)"

definition gemini_data :: "analyzer \<Rightarrow> string \<Rightarrow> pyval" where
  "gemini_data a prompt =
     PyDict
       [(''contents'', PyList [PyDict [(''parts'', PyList [PyDict [(''text'', PyStr prompt)]])]]),
        (''generationConfig'',
         PyDict
           [(''maxOutputTokens'',
             PyInt (min (self_max_tokens a) (max_tokens (self_model_config a)))),
            (''temperature'', PyFloat 1 (-1))])]"

definition call_gemini ::
  "world \<Rightarrow> analyzer \<Rightarrow> string \<Rightarrow> request list \<Rightarrow> (error + pyval) \<times> request list" where
  "call_gemini w a prompt sent =
     (case self_api_base a of
        None \<Rightarrow> (Inl AttributeError, sent)
      | Some api_base \<Rightarrow>
          let url = api_base @ ''/models/'' @ self_model a @ '':'' @
                    endpoint (self_model_config a);
              url = url @ ''?key='' @ self_api_key a
          in (case self_headers a of
                None \<Rightarrow> (Inl AttributeError, sent)
              | Some hs \<Rightarrow>
                  make_request w a url (gemini_data a prompt)
                    (Some (filter (\<lambda>(k, v). k \<noteq> ''Authorization'') hs)) sent))"

section \<open>The prompt\<close>

text \<open>
  \<open>d.get(k, default)\<close> and \<open>d[k]\<close>, \<open>v[0]\<close> on a value: a dictionary made by
  \<open>json.load\<close> has string keys, each once.
\<close>

definition dict_get :: "pyval \<Rightarrow> string \<Rightarrow> pyval \<Rightarrow> error + pyval" where
  "dict_get d k dflt =
     (case d of
        PyDict items \<Rightarrow> Inr (case map_of items k of None \<Rightarrow> dflt | Some v \<Rightarrow> v)
      | _ \<Rightarrow> Inl AttributeError)"

definition subscript :: "pyval \<Rightarrow> string \<Rightarrow> error + pyval" where
  "subscript d k = (case d of PyDict items \<Rightarrow> lookup items k | _ \<Rightarrow> Inl TypeError)"

definition subscript0 :: "pyval \<Rightarrow> error + pyval" where
  "subscript0 v =
     (case v of
        PyList [] \<Rightarrow> Inl (IndexError ''list index out of range'')
      | PyList (x # xs) \<Rightarrow> Inr x
      | PyStr [] \<Rightarrow> Inl (IndexError ''string index out of range'')
      | PyStr (c # cs) \<Rightarrow> Inr (PyStr [c])
      | PyDict items \<Rightarrow> Inl (KeyError ''0'')
      | _ \<Rightarrow> Inl TypeError)"

text \<open>What an f-string puts in for a value.\<close>

definition format_value :: "world \<Rightarrow> pyval \<Rightarrow> string" where
  "format_value w v = (case v of PyStr s \<Rightarrow> s | _ \<Rightarrow> py_str w v)"

text \<open>\<open>v[:n]\<close>: a string and a list have slices.\<close>

definition slice_to :: "nat \<Rightarrow> pyval \<Rightarrow> error + pyval" where
  "slice_to n v =
     (case v of
        PyStr s \<Rightarrow> Inr (PyStr (take n s))
      | PyList xs \<Rightarrow> Inr (PyList (take n xs))
      | _ \<Rightarrow> Inl TypeError)"

definition PROMPT_HEAD :: string where
  \<open>PROMPT_HEAD =
     ''You are an expert DevOps engineer analyzing a CI/CD build failure. Provide specific, actionable solutions based on the error logs.\<newline>'' @
     ''\<newline>'' @
     ''BUILD INFORMATION:\<newline>''\<close>

definition PROMPT_TAIL :: string where
  \<open>PROMPT_TAIL =
     ''  # Increased log size\<newline>'' @
     ''```\<newline>'' @
     ''\<newline>'' @
     ''CRITICAL ANALYSIS RULES FOR GIT ERRORS:\<newline>'' @
     ''1. If you see "fatal: unable to access" with a GitHub URL, this is AUTHENTICATION failure, NOT network issues\<newline>'' @
     ''2. If you see "HTTP/2 stream 0 was not closed cleanly: PROTOCOL_ERROR" with GitHub, this means authentication failed\<newline>'' @
     ''3. If the log shows "Using GitHub token for authentication" followed by an error, the token is invalid/expired\<newline>'' @
     ''4. NEVER suggest "check network connectivity" for GitHub access errors - it's always authentication\<newline>'' @
     ''\<newline>'' @
     ''ANALYSIS INSTRUCTIONS:\<newline>'' @
     ''Analyze the error logs carefully and provide your response in EXACTLY this format:\<newline>'' @
     ''\<newline>'' @
     ''ROOT CAUSE: [Write a complete 1-2 sentence explanation. For GitHub errors, explicitly state it's an authentication issue with the token]\<newline>'' @
     ''\<newline>'' @
     ''SUGGESTED FIXES:\<newline>'' @
     ''- [For GitHub auth errors: "Regenerate GitHub personal access token at https://github.com/settings/tokens with 'repo' scope for private repositories"]\<newline>'' @
     ''- [For GitHub auth errors: "Verify GITHUB_TOKEN in .env file is correct and hasn't expired - tokens show as 'ghp_' followed by random characters"]\<newline>'' @
     ''- [For GitHub auth errors: "Test token with: curl -H 'Authorization: token YOUR_TOKEN' https://api.github.com/user"]\<newline>'' @
     ''\<newline>'' @
     ''CONFIDENCE: [0-100]%\<newline>'' @
     ''SEVERITY: [low/medium/high]\<newline>'' @
     ''\<newline>'' @
     ''Important:\<newline>'' @
     ''- Be SPECIFIC about the actual error - don't give generic advice\<newline>'' @
     ''- For GitHub/git errors, ALWAYS focus on authentication/token issues\<newline>'' @
     ''- Include exact commands and URLs where applicable''\<close>

definition render_prompt ::
  "string \<Rightarrow> string \<Rightarrow> string \<Rightarrow> string \<Rightarrow> string \<Rightarrow> string \<Rightarrow> string" where
  "render_prompt pipeline branch command exit_status phase log =
     PROMPT_HEAD @
     ''- Pipeline: '' @ pipeline @
     ''\<newline>- Branch: '' @ branch @
     ''\<newline>- Command: '' @ command @
     ''\<newline>- Exit Status: '' @ exit_status @
     ''\<newline>- Phase: '' @ phase @
     ''\<newline>\<newline>ERROR LOG (last 100 lines):\<newline>```\<newline>'' @ log @
     PROMPT_TAIL"

text \<open>\<open>_build_prompt\<close>; the context is the dictionary that \<open>main\<close> loads.\<close>

definition build_prompt :: "world \<Rightarrow> (string \<times> pyval) list \<Rightarrow> error + string" where
  "build_prompt w context =
     (let build_info = (case map_of context ''build_info'' of None \<Rightarrow> PyDict [] | Some v \<Rightarrow> v);
          log_excerpt = (case map_of context ''log_excerpt'' of None \<Rightarrow> PyStr [] | Some v \<Rightarrow> v)
      in case dict_get build_info ''pipeline'' (PyStr ''unknown'') of
           Inl e \<Rightarrow> Inl e
         | Inr pipeline \<Rightarrow>
        (case dict_get build_info ''branch'' (PyStr ''unknown'') of
           Inl e \<Rightarrow> Inl e
         | Inr branch \<Rightarrow>
        (case dict_get build_info ''command'' (PyStr ''unknown'') of
           Inl e \<Rightarrow> Inl e
         | Inr command \<Rightarrow>
        (case dict_get build_info ''exit_status'' (PyStr ''unknown'') of
           Inl e \<Rightarrow> Inl e
         | Inr exit_status \<Rightarrow>
        (case dict_get build_info ''phase'' (PyStr ''command'') of
           Inl e \<Rightarrow> Inl e
         | Inr phase \<Rightarrow>
        (case slice_to 5000 log_excerpt of
           Inl e \<Rightarrow> Inl e
         | Inr log \<Rightarrow>
             Inr (render_prompt (format_value w pipeline) (format_value w branch)
                    (format_value w command) (format_value w exit_status)
                    (format_value w phase) (format_value w log))))))))"

section \<open>The reply of a provider\<close>

text \<open>
  The content and the token count that \<open>_parse_response\<close> reads from the reply, per
  provider, in the order of the source.
\<close>

definition reply_openai :: "pyval \<Rightarrow> error + pyval \<times> pyval" where
  "reply_openai response =
     (case subscript response ''choices'' of Inl e \<Rightarrow> Inl e | Inr v \<Rightarrow>
      case subscript0 v of Inl e \<Rightarrow> Inl e | Inr v \<Rightarrow>
      case subscript v ''message'' of Inl e \<Rightarrow> Inl e | Inr v \<Rightarrow>
      case subscript v ''content'' of Inl e \<Rightarrow> Inl e | Inr content \<Rightarrow>
      case dict_get response ''usage'' (PyDict []) of Inl e \<Rightarrow> Inl e | Inr u \<Rightarrow>
      case dict_get u ''total_tokens'' (PyInt 0) of Inl e \<Rightarrow> Inl e | Inr tokens \<Rightarrow>
      Inr (content, tokens))"

definition reply_anthropic :: "pyval \<Rightarrow> error + pyval \<times> pyval" where
  "reply_anthropic response =
     (case subscript response ''content'' of Inl e \<Rightarrow> Inl e | Inr v \<Rightarrow>
      case subscript0 v of Inl e \<Rightarrow> Inl e | Inr v \<Rightarrow>
      case subscript v ''text'' of Inl e \<Rightarrow> Inl e | Inr content \<Rightarrow>
      case dict_get response ''usage'' (PyDict []) of Inl e \<Rightarrow> Inl e | Inr u \<Rightarrow>
      case dict_get u ''output_tokens'' (PyInt 0) of Inl e \<Rightarrow> Inl e | Inr tokens \<Rightarrow>
      Inr (content, tokens))"

definition reply_gemini :: "pyval \<Rightarrow> error + pyval \<times> pyval" where
  "reply_gemini response =
     (case subscript response ''candidates'' of Inl e \<Rightarrow> Inl e | Inr v \<Rightarrow>
      case subscript0 v of Inl e \<Rightarrow> Inl e | Inr v \<Rightarrow>
      case subscript v ''content'' of Inl e \<Rightarrow> Inl e | Inr v \<Rightarrow>
      case subscript v ''parts'' of Inl e \<Rightarrow> Inl e | Inr v \<Rightarrow>
      case subscript0 v of Inl e \<Rightarrow> Inl e | Inr v \<Rightarrow>
      case subscript v ''text'' of Inl e \<Rightarrow> Inl e | Inr content \<Rightarrow>
      case dict_get response ''usageMetadata'' (PyDict []) of Inl e \<Rightarrow> Inl e | Inr u \<Rightarrow>
      case dict_get u ''totalTokenCount'' (PyInt 0) of Inl e \<Rightarrow> Inl e | Inr tokens \<Rightarrow>
      Inr (content, tokens))"

text \<open>
  \<open>_parse_response\<close>: the \<open>except\<close> clause turns a \<open>KeyError\<close> and an
  \<open>IndexError\<close> into an \<open>AIProviderError\<close>; any other exception, the \<open>ValueError\<close> of
  the extraction among them, leaves the function as it is. \<open>re.search\<close> raises
  \<open>TypeError\<close> on a content that is not a string.
\<close>

definition parse_response :: "analyzer \<Rightarrow> pyval \<Rightarrow> error + analysis" where
  "parse_response a response =
     (case (case (if self_provider a = ''openai'' then reply_openai response
                  else if self_provider a = ''anthropic'' then reply_anthropic response
                  else if self_provider a = ''gemini'' then reply_gemini response
                  else Inl (AIProviderError (''Unknown provider: '' @ self_provider a))) of
              Inl e \<Rightarrow> Inl e
            | Inr (content, tokens) \<Rightarrow>
                (case content of
                   PyStr text \<Rightarrow> extract_analysis_fields text tokens
                 | _ \<Rightarrow> Inl TypeError)) of
        Inl (KeyError e) \<Rightarrow> Inl (AIProviderError (''Invalid response format: '' @ e))
      | Inl (IndexError e) \<Rightarrow> Inl (AIProviderError (''Invalid response format: '' @ e))
      | r \<Rightarrow> r)"

section \<open>Collapsed white space\<close>

text \<open>
  What the claims say of a root cause: every white-space character of the text is a
  space, and no white space follows it. \<open>collapse\<close> is the closed form of
  the substitution of \<^verbatim>\<open>\s+\<close> by one space.
\<close>

fun single_spaced :: "string \<Rightarrow> bool" where
  "single_spaced [] = True"
| "single_spaced [c] = (py_isspace c \<longrightarrow> c = CHR '' '')"
| "single_spaced (c # d # s) =
     ((py_isspace c \<longrightarrow> c = CHR '' '' \<and> \<not> py_isspace d) \<and> single_spaced (d # s))"

function collapse :: "string \<Rightarrow> string" where
  "collapse [] = []"
| "collapse (c # cs) =
     (if py_isspace c then CHR '' '' # collapse (dropWhile py_isspace cs) else c # collapse cs)"
  by pat_completeness auto
termination
  by (relation "measure length") (auto simp: length_dropWhile_le less_Suc_eq_le)

section \<open>A labelled confidence\<close>

text \<open>
  What the claims say of a confidence in the reply: \<open>confidence_label s ds\<close> holds
  when \<open>s\<close> begins with the label \<open>CONFIDENCE\<close> in any case, then colons and white
  space, then the digits \<open>ds\<close>, which are all the digits there. \<open>confidence_digits\<close>
  is the closed form of a match of the pattern at the start of a text.
\<close>

definition confidence_label :: "string \<Rightarrow> string \<Rightarrow> bool" where
  "confidence_label s ds =
     (\<exists>lab sep r. s = lab @ sep @ ds @ r \<and> py_lower lab = ''confidence'' \<and>
        (\<forall>c\<in>set sep. c = CHR '':'' \<or> py_isspace c) \<and>
        ds \<noteq> [] \<and> (\<forall>c\<in>set ds. py_isdigit c) \<and> (r = [] \<or> \<not> py_isdigit (hd r)))"

definition confidence_digits :: "string \<Rightarrow> string option" where
  "confidence_digits s =
     (if py_lower (take 10 s) = ''confidence'' then
        let ds = takeWhile py_isdigit
                   (dropWhile (\<lambda>c. c = CHR '':'' \<or> py_isspace c) (drop 10 s))
        in if ds = [] then None else Some ds
      else None)"

section \<open>A reply and a world for the examples\<close>

definition SAMPLE_REPLY :: string where
  "SAMPLE_REPLY =
     ''ROOT CAUSE: Token expired.\<newline>SUGGESTED FIXES:\<newline>- Regenerate token\<newline>- Check expiry\<newline>CONFIDENCE: 85%\<newline>SEVERITY: high''"

definition example_world :: world where
  "example_world =
     \<lparr>py_str = (\<lambda>v. []), json_dumps = (\<lambda>v. []), json_loads = (\<lambda>s. Inl []),
      urlopen = (\<lambda>r. URLError [])\<rparr>"

section \<open>Construction of the analyzer\<close>

lemma supported_cases:
  assumes "map_of SUPPORTED_MODELS p = Some pm"
  shows "(p = ''openai'' \<and> pm = OPENAI_MODELS) \<or> (p = ''anthropic'' \<and> pm = ANTHROPIC_MODELS) \<or>
         (p = ''gemini'' \<and> pm = GEMINI_MODELS)"
  using assms by (simp add: SUPPORTED_MODELS_def split: if_splits)

lemma no_alias_openai: "find (\<lambda>(model_name, config). config_alias config = Some m) OPENAI_MODELS = None"
  by (simp add: OPENAI_MODELS_def entry_def)

lemma no_alias_anthropic: "find (\<lambda>(model_name, config). config_alias config = Some m) ANTHROPIC_MODELS = None"
  by (simp add: ANTHROPIC_MODELS_def entry_def)

lemma no_alias_gemini: "find (\<lambda>(model_name, config). config_alias config = Some m) GEMINI_MODELS = None"
  by (simp add: GEMINI_MODELS_def entry_def)

lemma no_alias:
  assumes "map_of SUPPORTED_MODELS p = Some pm"
  shows "find (\<lambda>(model_name, config). config_alias config = Some m) pm = None"
  using supported_cases[OF assms] no_alias_openai no_alias_anthropic no_alias_gemini by auto

lemma resolve_is_identity:
  assumes "map_of SUPPORTED_MODELS p = Some pm"
  shows "resolve_model_name p m = Inr m"
  using assms no_alias[OF assms, of m]
  by (simp add: resolve_model_name_def lookup_def)


lemma default_in_catalog:
  assumes "map_of SUPPORTED_MODELS p = Some pm"
  shows "\<exists>m cfg. get_default_model p = Inr m \<and> map_of pm m = Some cfg"
  using supported_cases[OF assms]
  by (elim disjE conjE)
     (simp_all add: get_default_model_def lookup_def OPENAI_MODELS_def ANTHROPIC_MODELS_def
        GEMINI_MODELS_def)

lemma in_keys_map_of: "p \<in> set (map fst xs) \<Longrightarrow> \<exists>v. map_of xs p = Some v"
  by (induction xs) auto

lemma setup_keeps:
  "self_provider (setup_provider_config a) = self_provider a"
  "self_model (setup_provider_config a) = self_model a"
  "self_max_tokens (setup_provider_config a) = self_max_tokens a"
  "self_model_config (setup_provider_config a) = self_model_config a"
  "self_api_key (setup_provider_config a) = self_api_key a"
  by (simp_all add: setup_provider_config_def)

lemma setup_sets:
  assumes "map_of SUPPORTED_MODELS (self_provider a) = Some pm"
  shows "\<exists>b hs. self_api_base (setup_provider_config a) = Some b \<and> prefix ''https://'' b \<and>
           self_headers (setup_provider_config a) = Some hs"
  using supported_cases[OF assms]
  by (elim disjE conjE) (simp_all add: setup_provider_config_def)

lemma init_no_key:
  "AIAnalyzer_init None provider model mt =
     Inl (AIProviderError (''API key not found for '' @ provider))"
  by (simp add: AIAnalyzer_init_def)

lemma init_empty_key:
  "AIAnalyzer_init (Some []) provider model mt =
     Inl (AIProviderError (''API key not found for '' @ provider))"
  by (simp add: AIAnalyzer_init_def)

lemma init_bad_provider:
  "key \<noteq> [] \<Longrightarrow> py_lower provider \<notin> set (map fst SUPPORTED_MODELS) \<Longrightarrow>
   AIAnalyzer_init (Some key) provider model mt =
     Inl (AIProviderError (''Unsupported provider: '' @ provider))"
  by (simp add: AIAnalyzer_init_def Let_def)


lemma init_unfold:
  assumes "key \<noteq> []" and "map_of SUPPORTED_MODELS (py_lower provider) = Some pm"
    and "(case model of None \<Rightarrow> get_default_model (py_lower provider)
          | Some m \<Rightarrow> if m \<noteq> [] then resolve_model_name (py_lower provider) m
                      else get_default_model (py_lower provider)) = Inr m"
  shows "AIAnalyzer_init (Some key) provider model mt =
           (case map_of pm m of
              None \<Rightarrow> Inl (AIProviderError
                            (''Unsupported model '' @ [CHR 0x27] @ m @ [CHR 0x27] @
                             '' for provider '' @ [CHR 0x27] @ py_lower provider @ [CHR 0x27]))
            | Some config \<Rightarrow>
                Inr (setup_provider_config
                       \<lparr>self_provider = py_lower provider, self_max_tokens = mt,
                        self_api_key = key, self_model = m, self_model_config = config,
                        self_api_base = None, self_headers = None\<rparr>))"
proof -
  have in_keys: "py_lower provider \<in> set (map fst SUPPORTED_MODELS)"
    using assms(2) by (metis map_of_eq_None_iff option.distinct(1) list.set_map)
  have lk: "lookup SUPPORTED_MODELS (py_lower provider) = Inr pm"
    using assms(2) by (simp add: lookup_def)
  show ?thesis
    unfolding AIAnalyzer_init_def Let_def option.case
    by (simp only: assms(1) in_keys assms(3) lk if_False not_True_eq_False not_not sum.case if_True)
qed


lemma resolved:
  assumes "map_of SUPPORTED_MODELS p = Some pm"
  shows "\<exists>m'. (case model of None \<Rightarrow> get_default_model p
          | Some m \<Rightarrow> if m \<noteq> [] then resolve_model_name p m
                      else get_default_model p) = Inr m'"
proof (cases model)
  case None
  then show ?thesis using default_in_catalog[OF assms] by auto
next
  case (Some m)
  then show ?thesis
    using default_in_catalog[OF assms] resolve_is_identity[OF assms, of m] by (cases "m = []") auto
qed

lemma init_Inr_key:
  assumes "AIAnalyzer_init api_key provider model mt = Inr a"
  obtains key where "api_key = Some key" "key \<noteq> []"
proof (cases api_key)
  case None
  with assms show ?thesis by (simp add: init_no_key)
next
  case (Some key)
  with assms have "key \<noteq> []" by (auto simp: init_empty_key)
  with Some that show ?thesis by blast
qed

lemma init_Inr_provider:
  assumes "AIAnalyzer_init (Some key) provider model mt = Inr a" "key \<noteq> []"
  shows "py_lower provider \<in> set (map fst SUPPORTED_MODELS)"
  using assms init_bad_provider[of key provider model mt] by auto

lemma init_Inr_config:
  assumes "(case map_of pm m of
              None \<Rightarrow> Inl (AIProviderError
                            (''Unsupported model '' @ [CHR 0x27] @ m @ [CHR 0x27] @
                             '' for provider '' @ [CHR 0x27] @ p @ [CHR 0x27]))
            | Some config \<Rightarrow>
                Inr (setup_provider_config
                       \<lparr>self_provider = p, self_max_tokens = mt,
                        self_api_key = key, self_model = m, self_model_config = config,
                        self_api_base = None, self_headers = None\<rparr>)) = Inr a"
  obtains cfg where "map_of pm m = Some cfg"
    "a = setup_provider_config
           \<lparr>self_provider = p, self_max_tokens = mt,
            self_api_key = key, self_model = m, self_model_config = cfg,
            self_api_base = None, self_headers = None\<rparr>"
  using assms by (cases "map_of pm m") auto

lemma init_Inr_fields:
  assumes pm: "map_of SUPPORTED_MODELS p = Some pm" and cfg: "map_of pm m = Some cfg"
    and a: "a = setup_provider_config
                  \<lparr>self_provider = p, self_max_tokens = mt,
                   self_api_key = key, self_model = m, self_model_config = cfg,
                   self_api_base = None, self_headers = None\<rparr>"
  shows "self_provider a = p" "map_of SUPPORTED_MODELS (self_provider a) = Some pm"
    "map_of pm (self_model a) = Some cfg" "self_model_config a = cfg"
    "self_max_tokens a = mt" "self_api_key a = key"
    "\<exists>b hs. self_api_base a = Some b \<and> prefix ''https://'' b \<and> self_headers a = Some hs"
proof -
  show "self_provider a = p" "map_of SUPPORTED_MODELS (self_provider a) = Some pm"
    "map_of pm (self_model a) = Some cfg" "self_model_config a = cfg"
    "self_max_tokens a = mt" "self_api_key a = key"
    using pm cfg unfolding a by (simp_all add: setup_keeps)
  have "map_of SUPPORTED_MODELS
          (self_provider \<lparr>self_provider = p, self_max_tokens = mt,
                   self_api_key = key, self_model = m, self_model_config = cfg,
                   self_api_base = None, self_headers = None\<rparr>) = Some pm"
    using pm by simp
  from setup_sets[OF this]
  show "\<exists>b hs. self_api_base a = Some b \<and> prefix ''https://'' b \<and> self_headers a = Some hs"
    unfolding a .
qed

lemma init_Inr:
  assumes "AIAnalyzer_init api_key provider model mt = Inr a"
  shows "\<exists>key pm cfg b hs. api_key = Some key \<and> key \<noteq> [] \<and> self_provider a = py_lower provider \<and>
           map_of SUPPORTED_MODELS (self_provider a) = Some pm \<and>
           map_of pm (self_model a) = Some cfg \<and> self_model_config a = cfg \<and>
           self_max_tokens a = mt \<and> self_api_key a = key \<and>
           self_headers a = Some hs \<and> self_api_base a = Some b \<and> prefix ''https://'' b"
proof -
  from assms obtain key where k: "api_key = Some key" "key \<noteq> []"
    by (rule init_Inr_key)
  have eq: "AIAnalyzer_init (Some key) provider model mt = Inr a" using assms k by simp
  have "py_lower provider \<in> set (map fst SUPPORTED_MODELS)"
    using eq k(2) by (rule init_Inr_provider)
  from in_keys_map_of[OF this]
  obtain pm where pm: "map_of SUPPORTED_MODELS (py_lower provider) = Some pm" ..
  from resolved[OF pm, of model] obtain m where
    m: "(case model of None \<Rightarrow> get_default_model (py_lower provider)
          | Some m \<Rightarrow> if m \<noteq> [] then resolve_model_name (py_lower provider) m
                      else get_default_model (py_lower provider)) = Inr m" ..
  from eq[unfolded init_unfold[OF k(2) pm m]] obtain cfg where cfg: "map_of pm m = Some cfg"
    and a: "a = setup_provider_config
                  \<lparr>self_provider = py_lower provider, self_max_tokens = mt,
                   self_api_key = key, self_model = m, self_model_config = cfg,
                   self_api_base = None, self_headers = None\<rparr>"
    by (rule init_Inr_config)
  note f = init_Inr_fields[OF pm cfg a]
  from f(7) obtain b hs where
    "self_api_base a = Some b" "prefix ''https://'' b" "self_headers a = Some hs" by blast
  with k f(1-6) show ?thesis by blast
qed

text \<open>
  C10: the constructor looks at the credential before it looks at the provider. Without
  a credential (the variable unset or empty) it fails with the missing-credential error
  whatever the provider and the model are, so a failure with the unknown-provider error
  means that a credential was there.
\<close>

theorem credential_before_provider:
  "((api_key = None \<or> api_key = Some []) \<longrightarrow>
      AIAnalyzer_init api_key provider model mt =
        Inl (AIProviderError (''API key not found for '' @ provider))) \<and>
   (AIAnalyzer_init api_key provider model mt =
        Inl (AIProviderError (''Unsupported provider: '' @ p')) \<longrightarrow>
      (\<exists>key. api_key = Some key \<and> key \<noteq> []))"
proof (intro conjI impI)
  assume "api_key = None \<or> api_key = Some []"
  then show "AIAnalyzer_init api_key provider model mt =
        Inl (AIProviderError (''API key not found for '' @ provider))"
    using init_no_key init_empty_key by (elim disjE) simp_all
next
  assume u: "AIAnalyzer_init api_key provider model mt =
        Inl (AIProviderError (''Unsupported provider: '' @ p'))"
  show "\<exists>key. api_key = Some key \<and> key \<noteq> []"
  proof (cases api_key)
    case None
    with u show ?thesis by (simp add: init_no_key)
  next
    case (Some key)
    with u have "key \<noteq> []" by (auto simp: init_empty_key)
    with Some show ?thesis by simp
  qed
qed

theorem credential_before_provider_witness:
  "AIAnalyzer_init None ''nosuch'' (Some ''gpt-4o'') 1000 =
     Inl (AIProviderError ''API key not found for nosuch'') \<and>
   AIAnalyzer_init (Some ''k'') ''nosuch'' None 1000 =
     Inl (AIProviderError ''Unsupported provider: nosuch'') \<and>
   (\<exists>key. Some ''k'' = Some key \<and> key \<noteq> [])"
proof -
  have 1: "AIAnalyzer_init (Some ''k'') ''nosuch'' None 1000 =
     Inl (AIProviderError (''Unsupported provider: '' @ ''nosuch''))"
    by (rule init_bad_provider)
       (simp_all add: SUPPORTED_MODELS_def py_lower_def py_lower_char_def UPPERCASE_def
          LOWERCASE_def)
  show ?thesis
    using credential_before_provider[of None "''nosuch''" "Some ''gpt-4o''" 1000 "''nosuch''"]
      credential_before_provider[of "Some ''k''" "''nosuch''" None 1000 "''nosuch''"] 1
    by simp
qed

section \<open>Models, requests and replies\<close>

lemma names_nonempty:
  assumes "map_of SUPPORTED_MODELS p = Some pm"
  shows "[] \<notin> set (map fst pm)"
  using supported_cases[OF assms]
  by (elim disjE conjE) (simp_all add: OPENAI_MODELS_def ANTHROPIC_MODELS_def GEMINI_MODELS_def)

lemma case_model_Some:
  assumes "map_of SUPPORTED_MODELS p = Some pm" and "m \<noteq> []"
  shows "(case Some m of None \<Rightarrow> get_default_model p
          | Some m \<Rightarrow> if m \<noteq> [] then resolve_model_name p m
                      else get_default_model p) = Inr m"
  using assms resolve_is_identity[OF assms(1), of m] by simp

lemma init_known_model:
  assumes "key \<noteq> []" and pm: "map_of SUPPORTED_MODELS (py_lower provider) = Some pm"
    and "m \<in> set (map fst pm)"
  shows "\<exists>a. AIAnalyzer_init (Some key) provider (Some m) mt = Inr a \<and> self_model a = m \<and>
           self_provider a = py_lower provider"
proof -
  have ne: "m \<noteq> []" using names_nonempty[OF pm] assms(3) by metis
  from in_keys_map_of[OF assms(3)] obtain cfg where cfg: "map_of pm m = Some cfg" ..
  show ?thesis
    unfolding init_unfold[OF assms(1) pm case_model_Some[OF pm ne]] cfg
    by (simp add: setup_keeps)
qed

lemma init_unknown_model:
  assumes "key \<noteq> []" and pm: "map_of SUPPORTED_MODELS (py_lower provider) = Some pm"
    and ne: "m \<noteq> []" and "m \<notin> set (map fst pm)"
  shows "AIAnalyzer_init (Some key) provider (Some m) mt =
           Inl (AIProviderError
                  (''Unsupported model '' @ [CHR 0x27] @ m @ [CHR 0x27] @
                   '' for provider '' @ [CHR 0x27] @ py_lower provider @ [CHR 0x27]))"
proof -
  have "map_of pm m = None" using assms(4) by (simp add: map_of_eq_None_iff)
  then show ?thesis
    unfolding init_unfold[OF assms(1) pm case_model_Some[OF pm ne]] by simp
qed

text \<open>
  C9: with a credential, for a provider whose lower-case form is in the catalog: a
  requested model that is a model of this provider is resolved to itself and
  construction succeeds with exactly this model; a requested model whose resolution is
  not a model of this provider makes construction fail with the unsupported-model error,
  whose message names the model and the provider.
\<close>

theorem resolve_then_validate:
  assumes "key \<noteq> []" and "map_of SUPPORTED_MODELS (py_lower provider) = Some pm"
  shows "(m \<in> set (map fst pm) \<longrightarrow>
            resolve_model_name (py_lower provider) m = Inr m \<and>
            (\<exists>a. AIAnalyzer_init (Some key) provider (Some m) mt = Inr a \<and> self_model a = m \<and>
                 self_provider a = py_lower provider)) \<and>
         (m \<noteq> [] \<longrightarrow> resolve_model_name (py_lower provider) m = Inr m' \<longrightarrow>
            m' \<notin> set (map fst pm) \<longrightarrow>
            AIAnalyzer_init (Some key) provider (Some m) mt =
              Inl (AIProviderError
                     (''Unsupported model '' @ [CHR 0x27] @ m' @ [CHR 0x27] @
                      '' for provider '' @ [CHR 0x27] @ py_lower provider @ [CHR 0x27])))"
proof (intro conjI impI)
  assume "m \<in> set (map fst pm)"
  then show "\<exists>a. AIAnalyzer_init (Some key) provider (Some m) mt = Inr a \<and> self_model a = m \<and>
                 self_provider a = py_lower provider"
    using init_known_model[OF assms] by simp
next
  show "resolve_model_name (py_lower provider) m = Inr m"
    by (rule resolve_is_identity[OF assms(2)])
next
  assume ne: "m \<noteq> []" and r: "resolve_model_name (py_lower provider) m = Inr m'"
    and n: "m' \<notin> set (map fst pm)"
  have "m' = m" using r resolve_is_identity[OF assms(2), of m] by simp
  with n ne show "AIAnalyzer_init (Some key) provider (Some m) mt =
              Inl (AIProviderError
                     (''Unsupported model '' @ [CHR 0x27] @ m' @ [CHR 0x27] @
                      '' for provider '' @ [CHR 0x27] @ py_lower provider @ [CHR 0x27]))"
    using init_unknown_model[OF assms, of m mt] by simp
qed

lemma lower_OpenAI: "py_lower ''OpenAI'' = ''openai''"
  by (simp add: py_lower_def py_lower_char_def UPPERCASE_def LOWERCASE_def)

lemma lookup_openai: "map_of SUPPORTED_MODELS ''openai'' = Some OPENAI_MODELS"
  by (simp add: SUPPORTED_MODELS_def)


theorem resolve_then_validate_witness:
  "(''k'' \<noteq> [] \<and> map_of SUPPORTED_MODELS (py_lower ''OpenAI'') = Some OPENAI_MODELS) \<and>
   ''gpt-4o'' \<in> set (map fst OPENAI_MODELS) \<and>
   resolve_model_name ''openai'' ''gpt-4o'' = Inr ''gpt-4o'' \<and>
   (\<exists>a. AIAnalyzer_init (Some ''k'') ''OpenAI'' (Some ''gpt-4o'') 1000 = Inr a \<and>
        self_model a = ''gpt-4o'' \<and> self_provider a = ''openai'') \<and>
   ''gpt-5'' \<noteq> [] \<and> resolve_model_name ''openai'' ''gpt-5'' = Inr ''gpt-5'' \<and>
   ''gpt-5'' \<notin> set (map fst OPENAI_MODELS) \<and>
   AIAnalyzer_init (Some ''k'') ''OpenAI'' (Some ''gpt-5'') 1000 =
     Inl (AIProviderError
            (''Unsupported model '' @ [CHR 0x27] @ ''gpt-5'' @ [CHR 0x27] @
             '' for provider '' @ [CHR 0x27] @ ''openai'' @ [CHR 0x27]))"
proof -
  have k: "''k'' \<noteq> []" by simp
  have pm: "map_of SUPPORTED_MODELS (py_lower ''OpenAI'') = Some OPENAI_MODELS"
    by (simp add: lower_OpenAI lookup_openai)
  have in4: "''gpt-4o'' \<in> set (map fst OPENAI_MODELS)" by (simp add: OPENAI_MODELS_def)
  have nin5: "''gpt-5'' \<notin> set (map fst OPENAI_MODELS)" by (simp add: OPENAI_MODELS_def)
  have r5: "resolve_model_name (py_lower ''OpenAI'') ''gpt-5'' = Inr ''gpt-5''"
    by (rule resolve_is_identity[OF pm])
  note a = resolve_then_validate[OF k pm, where m = "''gpt-4o''" and mt = 1000, THEN conjunct1,
             rule_format, OF in4]
  note b = resolve_then_validate[OF k pm, where m = "''gpt-5''" and m' = "''gpt-5''" and mt = 1000,
             THEN conjunct2, rule_format, OF _ r5 nin5]
  show ?thesis
    using a b k pm in4 nin5 r5 unfolding lower_OpenAI by simp
qed

lemma subscript_dict: "subscript (PyDict items) k = lookup items k"
  by (simp add: subscript_def)

lemma https_append: "prefix ''https://'' b \<Longrightarrow> prefix ''https://'' (b @ t)"
  by (rule prefix_prefix)

lemma make_request_sent:
  assumes "prefix ''https://'' url"
    and "(case headers of None \<Rightarrow> self_headers a | Some h \<Rightarrow> Some h) = Some hs"
  shows "snd (make_request w a url data headers sent) = sent @ [(url, json_dumps w data, hs)]"
  using assms by (simp add: make_request_def Let_def)

text \<open>
  C5: for an analyzer that was constructed, the token limit in the body that each of
  the three provider calls hands to \<open>urlopen\<close> is the minimum of the requested
  \<open>max_tokens\<close> and the \<open>max_tokens\<close> of the catalog entry of the analyzer's
  provider and model, hence at most the catalog value.
\<close>

theorem token_cap:
  assumes "AIAnalyzer_init api_key provider model mt = Inr a"
  shows "\<exists>pm cfg.
           map_of SUPPORTED_MODELS (self_provider a) = Some pm \<and>
           map_of pm (self_model a) = Some cfg \<and>
           min mt (max_tokens cfg) \<le> max_tokens cfg \<and>
           subscript (openai_data a prompt) ''max_tokens'' = Inr (PyInt (min mt (max_tokens cfg))) \<and>
           subscript (anthropic_data a prompt) ''max_tokens'' =
             Inr (PyInt (min mt (max_tokens cfg))) \<and>
           (\<exists>g. subscript (gemini_data a prompt) ''generationConfig'' = Inr g \<and>
                subscript g ''maxOutputTokens'' = Inr (PyInt (min mt (max_tokens cfg)))) \<and>
           (\<exists>url hs. snd (call_openai w a prompt sent) =
                       sent @ [(url, json_dumps w (openai_data a prompt), hs)]) \<and>
           (\<exists>url hs. snd (call_anthropic w a prompt sent) =
                       sent @ [(url, json_dumps w (anthropic_data a prompt), hs)]) \<and>
           (\<exists>url hs. snd (call_gemini w a prompt sent) =
                       sent @ [(url, json_dumps w (gemini_data a prompt), hs)])"
proof -
  from init_Inr[OF assms] obtain key pm cfg b hs where
    pm: "map_of SUPPORTED_MODELS (self_provider a) = Some pm"
    and cfg: "map_of pm (self_model a) = Some cfg" "self_model_config a = cfg"
    and mt: "self_max_tokens a = mt"
    and hs: "self_headers a = Some hs" and b: "self_api_base a = Some b" "prefix ''https://'' b"
    by (elim exE conjE)
  have 1: "subscript (openai_data a prompt) ''max_tokens'' = Inr (PyInt (min mt (max_tokens cfg)))"
    by (simp add: openai_data_def subscript_dict lookup_def cfg mt)
  have 2: "subscript (anthropic_data a prompt) ''max_tokens'' =
             Inr (PyInt (min mt (max_tokens cfg)))"
    by (simp add: anthropic_data_def subscript_dict lookup_def cfg mt)
  have 3: "\<exists>g. subscript (gemini_data a prompt) ''generationConfig'' = Inr g \<and>
                subscript g ''maxOutputTokens'' = Inr (PyInt (min mt (max_tokens cfg)))"
    by (simp add: gemini_data_def subscript_dict lookup_def cfg mt)
  have 4: "\<exists>url hs. snd (call_openai w a prompt sent) =
                       sent @ [(url, json_dumps w (openai_data a prompt), hs)]"
    unfolding call_openai_def b option.case
    using make_request_sent[OF https_append[OF b(2)], where headers = None and a = a and hs = hs]
      hs
    by (intro exI) simp
  have 5: "\<exists>url hs. snd (call_anthropic w a prompt sent) =
                       sent @ [(url, json_dumps w (anthropic_data a prompt), hs)]"
    unfolding call_anthropic_def b option.case
    using make_request_sent[OF https_append[OF b(2)], where headers = None and a = a and hs = hs]
      hs
    by (intro exI) simp
  have 6: "\<exists>url hs. snd (call_gemini w a prompt sent) =
                       sent @ [(url, json_dumps w (gemini_data a prompt), hs)]"
    unfolding call_gemini_def b option.case hs Let_def
    using make_request_sent[OF https_append[OF b(2)],
            where headers = "Some (filter (\<lambda>(k, v). k \<noteq> ''Authorization'') hs)" and a = a]
    by (intro exI) simp
  have 0: "min mt (max_tokens cfg) \<le> max_tokens cfg" by simp
  show ?thesis
    by (rule exI[of _ pm], rule exI[of _ cfg]) (intro conjI pm cfg(1) 0 1 2 3 4 5 6)
qed


lemma lower_anthropic: "py_lower ''anthropic'' = ''anthropic''"
  by (simp add: py_lower_def py_lower_char_def UPPERCASE_def LOWERCASE_def)

lemma lookup_anthropic: "map_of SUPPORTED_MODELS ''anthropic'' = Some ANTHROPIC_MODELS"
  by (simp add: SUPPORTED_MODELS_def)

theorem token_cap_witness:
  "\<exists>a. AIAnalyzer_init (Some ''k'') ''anthropic'' (Some ''claude-3-opus-20240229'') 100000 = Inr a \<and>
       subscript (anthropic_data a ''p'') ''max_tokens'' = Inr (PyInt 4096)"
proof -
  have pm: "map_of SUPPORTED_MODELS (py_lower ''anthropic'') = Some ANTHROPIC_MODELS"
    by (simp add: lower_anthropic lookup_anthropic)
  have "''claude-3-opus-20240229'' \<in> set (map fst ANTHROPIC_MODELS)"
    by (simp add: ANTHROPIC_MODELS_def)
  from init_known_model[OF _ pm this, of "''k''" 100000] obtain a where
    a: "AIAnalyzer_init (Some ''k'') ''anthropic'' (Some ''claude-3-opus-20240229'') 100000 = Inr a"
    and m: "self_model a = ''claude-3-opus-20240229''"
    and p: "self_provider a = ''anthropic''"
    unfolding lower_anthropic by auto
  from token_cap[OF a, where prompt = "''p''" and w = example_world and sent = "[]"] obtain pm' cfg where
    1: "map_of SUPPORTED_MODELS (self_provider a) = Some pm'"
    and 2: "map_of pm' (self_model a) = Some cfg"
    and 3: "subscript (anthropic_data a ''p'') ''max_tokens'' =
              Inr (PyInt (min 100000 (max_tokens cfg)))"
    by (elim exE conjE)
  have "pm' = ANTHROPIC_MODELS" using 1 unfolding p lookup_anthropic by simp
  then have "cfg = entry ''messages'' 4096 15 (-2)"
    using 2 unfolding m by (simp add: ANTHROPIC_MODELS_def)
  then have "max_tokens cfg = 4096" by (simp add: entry_def)
  with 3 a show ?thesis by (intro exI[of _ a]) simp
qed

text \<open>
  C7: a request to a URL that does not start with \<open>https://\<close> fails with the
  error "Only HTTPS URLs allowed", and the list of requests passed to \<open>urlopen\<close>
  is the one before the call: nothing was sent.
\<close>

theorem https_only:
  assumes "AIAnalyzer_init api_key provider model mt = Inr a"
    and "\<not> prefix ''https://'' url"
  shows "make_request w a url data headers sent =
           (Inl (AIProviderError ''Only HTTPS URLs allowed''), sent)"
proof -
  from init_Inr[OF assms(1)] obtain hs where hs: "self_headers a = Some hs"
    by (elim exE conjE)
  show ?thesis
    using assms(2) hs by (cases headers) (simp_all add: make_request_def)
qed

theorem https_only_witness:
  "\<exists>a. AIAnalyzer_init (Some ''k'') ''anthropic'' (Some ''claude-3-opus-20240229'') 1000 = Inr a \<and>
       \<not> prefix ''https://'' ''http://api.anthropic.com/v1/messages'' \<and>
       make_request example_world a ''http://api.anthropic.com/v1/messages'' (PyDict []) None [] =
         (Inl (AIProviderError ''Only HTTPS URLs allowed''), [])"
proof -
  have pm: "map_of SUPPORTED_MODELS (py_lower ''anthropic'') = Some ANTHROPIC_MODELS"
    by (simp add: lower_anthropic lookup_anthropic)
  have "''claude-3-opus-20240229'' \<in> set (map fst ANTHROPIC_MODELS)"
    by (simp add: ANTHROPIC_MODELS_def)
  from init_known_model[OF _ pm this, of "''k''" 1000] obtain a where
    a: "AIAnalyzer_init (Some ''k'') ''anthropic'' (Some ''claude-3-opus-20240229'') 1000 = Inr a"
    by auto
  have n: "\<not> prefix ''https://'' ''http://api.anthropic.com/v1/messages''" by simp
  from https_only[OF a n, of example_world "PyDict []" None "[]"] a n
  show ?thesis by (intro exI[of _ a]) simp
qed

text \<open>
  C8: the \<open>except\<close> clause of \<open>_parse_response\<close> catches \<open>KeyError\<close> and
  \<open>IndexError\<close> only. A reply of the OpenAI kind whose \<open>choices\<close> is \<open>null\<close>
  has no reply path, and the \<open>TypeError\<close> of the subscript leaves the function
  unclassified.
\<close>

theorem parse_response_null_choices:
  "parse_response (a\<lparr>self_provider := ''openai''\<rparr>) (PyDict [(''choices'', PyNone)]) =
     Inl TypeError"
  by (simp add: parse_response_def reply_openai_def subscript_def lookup_def subscript0_def)

text \<open>A missing key and an empty list are classified.\<close>

lemma parse_response_missing_key:
  "parse_response (a\<lparr>self_provider := ''openai''\<rparr>) (PyDict []) =
     Inl (AIProviderError (''Invalid response format: '' @ [CHR 0x27] @ ''choices'' @ [CHR 0x27]))"
  by (simp add: parse_response_def reply_openai_def subscript_def lookup_def)

lemma parse_response_empty_list:
  "parse_response (a\<lparr>self_provider := ''openai''\<rparr>) (PyDict [(''choices'', PyList [])]) =
     Inl (AIProviderError ''Invalid response format: list index out of range'')"
  by (simp add: parse_response_def reply_openai_def subscript_def lookup_def subscript0_def)

section \<open>The fields of the prompt\<close>

lemma build_prompt_dict:
  assumes "(case map_of context ''build_info'' of None \<Rightarrow> PyDict [] | Some v \<Rightarrow> v) = PyDict info"
    and "slice_to 5000 (case map_of context ''log_excerpt'' of None \<Rightarrow> PyStr [] | Some v \<Rightarrow> v) =
           Inr log"
  shows "build_prompt w context =
           Inr (render_prompt
                  (case map_of info ''pipeline'' of None \<Rightarrow> ''unknown'' | Some v \<Rightarrow> format_value w v)
                  (case map_of info ''branch'' of None \<Rightarrow> ''unknown'' | Some v \<Rightarrow> format_value w v)
                  (case map_of info ''command'' of None \<Rightarrow> ''unknown'' | Some v \<Rightarrow> format_value w v)
                  (case map_of info ''exit_status'' of None \<Rightarrow> ''unknown''
                   | Some v \<Rightarrow> format_value w v)
                  (case map_of info ''phase'' of None \<Rightarrow> ''command'' | Some v \<Rightarrow> format_value w v)
                  (format_value w log))"
proof -
  have g: "\<And>k d. dict_get (PyDict info) k (PyStr d) =
             Inr (case map_of info k of None \<Rightarrow> PyStr d | Some v \<Rightarrow> v)"
    by (simp add: dict_get_def)
  have f: "\<And>k d. format_value w (case map_of info k of None \<Rightarrow> PyStr d | Some v \<Rightarrow> v) =
             (case map_of info k of None \<Rightarrow> d | Some v \<Rightarrow> format_value w v)"
    by (simp add: format_value_def split: option.split)
  show ?thesis
    unfolding build_prompt_def Let_def assms g sum.case f ..
qed

text \<open>
  C3, as amended: for a context whose \<open>build_info\<close> is a dictionary (or absent) and
  whose \<open>log_excerpt\<close> has a slice, the prompt holds the lines of pipeline, branch,
  command, exit status and phase, each with the formatted value of its field; an absent
  pipeline, branch, command or exit status is rendered as \<open>unknown\<close>, an absent phase
  as \<open>command\<close>.
\<close>

theorem build_prompt_fields:
  assumes "(case map_of context ''build_info'' of None \<Rightarrow> PyDict [] | Some v \<Rightarrow> v) = PyDict info"
    and "slice_to 5000 (case map_of context ''log_excerpt'' of None \<Rightarrow> PyStr [] | Some v \<Rightarrow> v) =
           Inr log"
  shows "\<exists>pre post.
           build_prompt w context =
             Inr (pre @
                  ''- Pipeline: '' @
                  (case map_of info ''pipeline'' of None \<Rightarrow> ''unknown''
                   | Some v \<Rightarrow> format_value w v) @
                  ''\<newline>- Branch: '' @
                  (case map_of info ''branch'' of None \<Rightarrow> ''unknown''
                   | Some v \<Rightarrow> format_value w v) @
                  ''\<newline>- Command: '' @
                  (case map_of info ''command'' of None \<Rightarrow> ''unknown''
                   | Some v \<Rightarrow> format_value w v) @
                  ''\<newline>- Exit Status: '' @
                  (case map_of info ''exit_status'' of None \<Rightarrow> ''unknown''
                   | Some v \<Rightarrow> format_value w v) @
                  ''\<newline>- Phase: '' @
                  (case map_of info ''phase'' of None \<Rightarrow> ''command''
                   | Some v \<Rightarrow> format_value w v) @
                  post)"
  unfolding build_prompt_dict[OF assms] render_prompt_def
  by (rule exI[of _ PROMPT_HEAD],
      rule exI[of _ "''\<newline>\<newline>ERROR LOG (last 100 lines):\<newline>```\<newline>'' @ format_value w log @ PROMPT_TAIL"])
     (simp only: append_assoc)

theorem build_prompt_fields_witness:
  "\<exists>pre post.
     build_prompt example_world
       [(''build_info'', PyDict [(''branch'', PyStr ''main'')]), (''log_excerpt'', PyStr ''boom'')] =
       Inr (pre @ ''- Pipeline: '' @ ''unknown'' @ ''\<newline>- Branch: '' @ ''main'' @
            ''\<newline>- Command: '' @ ''unknown'' @ ''\<newline>- Exit Status: '' @ ''unknown'' @
            ''\<newline>- Phase: '' @ ''command'' @ post)"
proof -
  have 1: "(case map_of [(''build_info'', PyDict [(''branch'', PyStr ''main'')]),
                         (''log_excerpt'', PyStr ''boom'')] ''build_info'' of
              None \<Rightarrow> PyDict [] | Some v \<Rightarrow> v) = PyDict [(''branch'', PyStr ''main'')]"
    by simp
  have 2: "slice_to 5000
             (case map_of [(''build_info'', PyDict [(''branch'', PyStr ''main'')]),
                           (''log_excerpt'', PyStr ''boom'')] ''log_excerpt'' of
                None \<Rightarrow> PyStr [] | Some v \<Rightarrow> v) = Inr (PyStr ''boom'')"
    by (simp add: slice_to_def)
  from build_prompt_fields[OF 1 2, of example_world]
  show ?thesis by (simp add: format_value_def)
qed

text \<open>
  C3, as stated, fails on the empty context: the phase is absent and the prompt has
  \<open>- Phase: command\<close>, which is not the prompt with \<open>- Phase: unknown\<close>.
\<close>

theorem absent_phase_is_not_unknown:
  "build_prompt example_world [] =
     Inr (render_prompt ''unknown'' ''unknown'' ''unknown'' ''unknown'' ''command'' []) \<and>
   render_prompt ''unknown'' ''unknown'' ''unknown'' ''unknown'' ''command'' [] \<noteq>
     render_prompt ''unknown'' ''unknown'' ''unknown'' ''unknown'' ''unknown'' []"
proof
  have 1: "(case map_of [] ''build_info'' of None \<Rightarrow> PyDict [] | Some v \<Rightarrow> v) = PyDict []"
    by simp
  have 2: "slice_to 5000 (case map_of [] ''log_excerpt'' of None \<Rightarrow> PyStr [] | Some v \<Rightarrow> v) =
             Inr (PyStr [])"
    by (simp add: slice_to_def)
  show "build_prompt example_world [] =
     Inr (render_prompt ''unknown'' ''unknown'' ''unknown'' ''unknown'' ''command'' [])"
    unfolding build_prompt_dict[OF 1 2] by (simp add: format_value_def)
  show "render_prompt ''unknown'' ''unknown'' ''unknown'' ''unknown'' ''command'' [] \<noteq>
     render_prompt ''unknown'' ''unknown'' ''unknown'' ''unknown'' ''unknown'' []"
    unfolding render_prompt_def by simp
qed

section \<open>The fallback of the extraction\<close>

lemma strip_Cons_space: "py_isspace c \<Longrightarrow> py_strip (c # l) = py_strip l"
  by (simp add: py_strip_def)

lemma strip_snoc_space:
  assumes "py_isspace c"
  shows "py_strip (l @ [c]) = py_strip l"
proof (cases "\<forall>x\<in>set l. py_isspace x")
  case True
  have 1: "dropWhile py_isspace l = []"
    using True by (simp only: dropWhile_eq_Nil_conv)
  have "\<forall>x\<in>set (l @ [c]). py_isspace x" using True assms by simp
  then have 2: "dropWhile py_isspace (l @ [c]) = []"
    by (simp only: dropWhile_eq_Nil_conv)
  show ?thesis unfolding py_strip_def 1 2 ..
next
  case False
  then obtain x where "x \<in> set l" "\<not> py_isspace x" by blast
  then have "dropWhile py_isspace (l @ [c]) = dropWhile py_isspace l @ [c]"
    by (rule dropWhile_append1)
  then show ?thesis using assms by (simp add: py_strip_def)
qed

lemma strip_Nil: "py_strip [] = []"
  by (simp add: py_strip_def)

lemma space_NL: "py_isspace NL"
  by (simp add: py_isspace_def WHITESPACE_def)

lemma split_nl_not_Nil: "py_split_nl s \<noteq> []"
  by (induction s) (auto split: list.splits)

lemma first_long_line_find:
  "first_long_line ls =
     (case find (\<lambda>l. 10 < length (py_strip l)) ls of
        None \<Rightarrow> UNPARSEABLE
      | Some l \<Rightarrow> py_strip l)"
  by (induction ls) auto

lemma first_long_line_cong:
  "map py_strip ls = map py_strip ls' \<Longrightarrow> first_long_line ls = first_long_line ls'"
proof (induction ls arbitrary: ls')
  case Nil
  then show ?case by simp
next
  case (Cons l ls)
  then obtain l' ls'' where "ls' = l' # ls''" by (cases ls') auto
  with Cons show ?case by auto
qed

lemma first_long_line_skip_empty: "first_long_line ([] # ls) = first_long_line ls"
  by (simp add: strip_Nil)

lemma first_long_line_snoc_empty: "first_long_line (ls @ [[]]) = first_long_line ls"
  by (induction ls) (simp_all add: strip_Nil)

lemma split_nl_snoc:
  "py_split_nl (s @ [c]) =
     (if c = NL then py_split_nl s @ [[]]
      else butlast (py_split_nl s) @ [last (py_split_nl s) @ [c]])"
proof (induction s)
  case Nil
  then show ?case by simp
next
  case (Cons a s)
  obtain l ls where s: "py_split_nl s = l # ls"
    using split_nl_not_Nil[of s] by (cases "py_split_nl s") auto
  obtain l' ls' where s': "py_split_nl (s @ [c]) = l' # ls'"
    using split_nl_not_Nil[of "s @ [c]"] by (cases "py_split_nl (s @ [c])") auto
  show ?case
    using Cons s s' by (auto split: if_splits)
qed

lemma first_long_lstrip:
  "first_long_line (py_split_nl (dropWhile py_isspace s)) = first_long_line (py_split_nl s)"
proof (induction s)
  case Nil
  then show ?case by simp
next
  case (Cons c s)
  show ?case
  proof (cases "py_isspace c")
    case False
    then show ?thesis by simp
  next
    case sp: True
    show ?thesis
    proof (cases "c = NL")
      case True
      then show ?thesis using Cons sp by (simp add: strip_Nil)
    next
      case False
      obtain l ls where s: "py_split_nl s = l # ls"
        using split_nl_not_Nil[of s] by (cases "py_split_nl s") auto
      have "first_long_line ((c # l) # ls) = first_long_line (l # ls)"
        by (rule first_long_line_cong) (simp add: strip_Cons_space[OF sp])
      then show ?thesis using Cons sp False s by simp
    qed
  qed
qed

lemma first_long_snoc_space:
  assumes "py_isspace c"
  shows "first_long_line (py_split_nl (s @ [c])) = first_long_line (py_split_nl s)"
proof (cases "c = NL")
  case True
  then show ?thesis by (simp add: split_nl_snoc first_long_line_snoc_empty)
next
  case False
  have ne: "py_split_nl s \<noteq> []" by (rule split_nl_not_Nil)
  have "map py_strip (butlast (py_split_nl s) @ [last (py_split_nl s) @ [c]]) =
        map py_strip (butlast (py_split_nl s) @ [last (py_split_nl s)])"
    by (simp add: strip_snoc_space[OF assms])
  also have "\<dots> = map py_strip (py_split_nl s)" using ne by simp
  finally have "first_long_line (butlast (py_split_nl s) @ [last (py_split_nl s) @ [c]]) =
                first_long_line (py_split_nl s)"
    by (rule first_long_line_cong)
  then show ?thesis
    using False by (simp add: split_nl_snoc)
qed

lemma first_long_rstrip:
  "first_long_line (py_split_nl (rev (dropWhile py_isspace (rev s)))) =
     first_long_line (py_split_nl s)"
proof (induction s rule: rev_induct)
  case Nil
  then show ?case by simp
next
  case (snoc c s)
  show ?case
  proof (cases "py_isspace c")
    case True
    then show ?thesis using snoc by (simp add: first_long_snoc_space)
  next
    case False
    then show ?thesis by simp
  qed
qed

lemma first_long_strip:
  "first_long_line (py_split_nl (py_strip s)) = first_long_line (py_split_nl s)"
  unfolding py_strip_def by (simp add: first_long_rstrip first_long_lstrip)

lemma UNPARSEABLE_not_Nil: "UNPARSEABLE \<noteq> []"
  by (simp add: UNPARSEABLE_def)

lemma first_long_line_not_Nil: "first_long_line ls \<noteq> []"
  by (induction ls) (auto simp: UNPARSEABLE_not_Nil)

lemma fallback_taken:
  assumes "root_cause a = []" and "suggested_fixes a = []"
  shows "fallback content a =
           a\<lparr>root_cause := first_long_line (py_split_nl content),
             suggested_fixes := GENERIC_FIXES\<rparr>"
  using assms by (simp add: fallback_def Let_def split_nl_not_Nil first_long_strip)

text \<open>
  The scans raise at the confidence exactly when the digits found there are more than
  the interpreter converts; otherwise they return.
\<close>

lemma scans_cases:
  "scans content t =
     (case re_search IGNORECASE confidence_re content of
        None \<Rightarrow>
          Inr (scan_severity content (scan_fixes content (scan_root_cause content (defaults t))))
      | Some m \<Rightarrow>
          if length (group m 1) > INT_MAX_STR_DIGITS then Inl ValueError
          else Inr (scan_severity content
                 ((scan_fixes content (scan_root_cause content (defaults t)))
                    \<lparr>confidence := min 100 (max 0 (digits_value (group m 1)))\<rparr>)))"
  by (simp add: scans_def scan_confidence_def py_int_def split: option.split)

lemma scans_return:
  assumes "\<forall>c. re_search IGNORECASE confidence_re content = Some c \<longrightarrow>
             length (group c 1) \<le> INT_MAX_STR_DIGITS"
  shows "\<exists>a. scans content t = Inr a"
proof (cases "re_search IGNORECASE confidence_re content")
  case None
  then show ?thesis unfolding scans_cases by simp
next
  case (Some m)
  with assms have "\<not> length (group m 1) > INT_MAX_STR_DIGITS" by simp
  with Some show ?thesis unfolding scans_cases by simp
qed

lemma scans_raise:
  assumes "re_search IGNORECASE confidence_re content = Some m"
    and "length (group m 1) > INT_MAX_STR_DIGITS"
  shows "extract_analysis_fields content t = Inl ValueError"
  unfolding extract_analysis_fields_def scans_cases using assms by simp

lemma extract_of_scans:
  "scans content t = Inr a \<Longrightarrow> extract_analysis_fields content t = Inr (fallback content a)"
  by (simp add: extract_analysis_fields_def)

text \<open>
  C1, as amended: let the reply have no labelled confidence of more than 4300 digits.
  Then the four scans return, and extraction returns as follows. When the scans leave
  both the root cause and the fixes empty, the root cause returned is the stripped form
  of the first line of the reply whose stripped length exceeds 10, or the fixed text
  when no line is that long, the fixes returned are the fixed generic list, and no other
  field is changed; the root cause returned is then not empty. When the scans leave the
  root cause empty and find fixes, extraction returns what the scans give, with the empty
  root cause.
\<close>

theorem fallback_result:
  assumes "\<forall>c. re_search IGNORECASE confidence_re content = Some c \<longrightarrow>
             length (group c 1) \<le> INT_MAX_STR_DIGITS"
  shows "\<exists>a. scans content t = Inr a \<and>
           (root_cause a = [] \<and> suggested_fixes a = [] \<longrightarrow>
              (let rc = (case find (\<lambda>line. 10 < length (py_strip line)) (py_split_nl content) of
                           None \<Rightarrow> UNPARSEABLE
                         | Some line \<Rightarrow> py_strip line)
               in extract_analysis_fields content t =
                    Inr (a\<lparr>root_cause := rc, suggested_fixes := GENERIC_FIXES\<rparr>) \<and>
                  rc \<noteq> [])) \<and>
           (root_cause a = [] \<and> suggested_fixes a \<noteq> [] \<longrightarrow>
              extract_analysis_fields content t = Inr a)"
proof -
  from scans_return[OF assms] obtain a where a: "scans content t = Inr a" ..
  have e: "extract_analysis_fields content t = Inr (fallback content a)"
    using a by (rule extract_of_scans)
  have 1: "root_cause a = [] \<and> suggested_fixes a = [] \<longrightarrow>
              (let rc = (case find (\<lambda>line. 10 < length (py_strip line)) (py_split_nl content) of
                           None \<Rightarrow> UNPARSEABLE
                         | Some line \<Rightarrow> py_strip line)
               in extract_analysis_fields content t =
                    Inr (a\<lparr>root_cause := rc, suggested_fixes := GENERIC_FIXES\<rparr>) \<and>
                  rc \<noteq> [])"
    using first_long_line_not_Nil[of "py_split_nl content"]
    by (simp add: e Let_def fallback_taken first_long_line_find)
  have 2: "root_cause a = [] \<and> suggested_fixes a \<noteq> [] \<longrightarrow>
             extract_analysis_fields content t = Inr a"
    by (simp add: e fallback_def)
  show ?thesis by (rule exI[of _ a]) (intro conjI a 1 2)
qed

section \<open>Matching letters without case\<close>

lemma distinct_UPPERCASE: "distinct UPPERCASE"
  by (simp add: UPPERCASE_def)

lemma distinct_LOWERCASE: "distinct LOWERCASE"
  by (simp add: LOWERCASE_def)

lemma length_cases: "length UPPERCASE = length LOWERCASE"
  by (simp add: UPPERCASE_def LOWERCASE_def)

lemma disjoint_cases: "c \<in> set UPPERCASE \<Longrightarrow> c \<notin> set LOWERCASE"
  by (auto simp: UPPERCASE_def LOWERCASE_def)

lemma keys_cases: "fst ` set (zip UPPERCASE LOWERCASE) = set UPPERCASE"
proof -
  have "map fst (zip UPPERCASE LOWERCASE) = UPPERCASE"
    using length_cases by (rule map_fst_zip)
  then have "set (map fst (zip UPPERCASE LOWERCASE)) = set UPPERCASE" by simp
  then show ?thesis by simp
qed

lemma cases_map_of:
  "(map_of (zip UPPERCASE LOWERCASE) c = Some l) = ((c, l) \<in> set (zip UPPERCASE LOWERCASE))"
proof -
  have "distinct (map fst (zip UPPERCASE LOWERCASE))"
    using distinct_UPPERCASE length_cases by simp
  then show ?thesis by (auto simp: map_of_eq_Some_iff)
qed

lemma lower_of_upper:
  assumes "(u, l) \<in> set (zip UPPERCASE LOWERCASE)"
  shows "py_lower_char u = l"
  using assms cases_map_of[of u l] by (simp add: py_lower_char_def)

lemma lower_of_other:
  assumes "c \<notin> set UPPERCASE"
  shows "py_lower_char c = c"
proof -
  have "map_of (zip UPPERCASE LOWERCASE) c = None"
    using assms by (simp add: map_of_eq_None_iff keys_cases)
  then show ?thesis by (simp add: py_lower_char_def)
qed

lemma zip_left_unique:
  assumes "(a, l) \<in> set (zip UPPERCASE LOWERCASE)" and "(c, l) \<in> set (zip UPPERCASE LOWERCASE)"
  shows "c = a"
proof -
  have "distinct (map snd (zip UPPERCASE LOWERCASE))"
    using distinct_LOWERCASE length_cases by simp
  then have "inj_on snd (set (zip UPPERCASE LOWERCASE))"
    by (simp add: distinct_map)
  from inj_onD[OF this _ assms(2) assms(1)] show ?thesis by simp
qed

lemma lower_eq_iff:
  assumes "l \<notin> set UPPERCASE"
  shows "(py_lower_char c = l) = (c = l \<or> (c, l) \<in> set (zip UPPERCASE LOWERCASE))"
proof (cases "c \<in> set UPPERCASE")
  case False
  then have "\<And>x. (c, x) \<notin> set (zip UPPERCASE LOWERCASE)" by (meson set_zip_leftD)
  with False show ?thesis by (simp add: lower_of_other)
next
  case True
  then have "map_of (zip UPPERCASE LOWERCASE) c \<noteq> None"
    by (simp add: map_of_eq_None_iff keys_cases)
  then obtain l' where l': "(c, l') \<in> set (zip UPPERCASE LOWERCASE)"
    using cases_map_of[of c] by auto
  have ne: "c \<noteq> l" using True assms by auto
  have "l = l'" if "(c, l) \<in> set (zip UPPERCASE LOWERCASE)"
    using that l' cases_map_of[of c l] cases_map_of[of c l'] by simp
  then show ?thesis
    using lower_of_upper[OF l'] l' ne by auto
qed

lemma icase_upper:
  assumes "ignorecase f" and "(a, l) \<in> set (zip UPPERCASE LOWERCASE)"
  shows "cmatch f (Lit a) c = (c = l \<or> c = a)"
proof -
  have "l \<in> set LOWERCASE" using assms(2) by (meson set_zip_rightD)
  moreover have "a \<in> set UPPERCASE" using assms(2) by (meson set_zip_leftD)
  ultimately have "l \<notin> set UPPERCASE" using disjoint_cases by blast
  from lower_eq_iff[OF this, of c] show ?thesis
    using assms lower_of_upper[OF assms(2)] zip_left_unique[OF assms(2), of c] by auto
qed

lemma icase_lower:
  assumes "ignorecase f" and "(u, a) \<in> set (zip UPPERCASE LOWERCASE)"
  shows "cmatch f (Lit a) c = (c = a \<or> c = u)"
proof -
  have "a \<in> set LOWERCASE" using assms(2) by (meson set_zip_rightD)
  then have n: "a \<notin> set UPPERCASE" using disjoint_cases by blast
  from lower_eq_iff[OF n, of c] show ?thesis
    using assms lower_of_other[OF n] zip_left_unique[OF assms(2), of c] by auto
qed

lemma icase_other:
  assumes "ignorecase f" and "a \<notin> set UPPERCASE" and "a \<notin> set LOWERCASE"
  shows "cmatch f (Lit a) c = (c = a)"
proof -
  have "(c, a) \<notin> set (zip UPPERCASE LOWERCASE)" using assms(3) by (meson set_zip_rightD)
  with lower_eq_iff[OF assms(2), of c] show ?thesis
    using assms(1) lower_of_other[OF assms(2)] by simp
qed

lemma icase_lit:
  assumes "ignorecase f"
  shows
    "cmatch f (Lit CHR ''A'') c = (c = CHR ''a'' \<or> c = CHR ''A'')"
    "cmatch f (Lit CHR ''C'') c = (c = CHR ''c'' \<or> c = CHR ''C'')"
    "cmatch f (Lit CHR ''D'') c = (c = CHR ''d'' \<or> c = CHR ''D'')"
    "cmatch f (Lit CHR ''E'') c = (c = CHR ''e'' \<or> c = CHR ''E'')"
    "cmatch f (Lit CHR ''F'') c = (c = CHR ''f'' \<or> c = CHR ''F'')"
    "cmatch f (Lit CHR ''G'') c = (c = CHR ''g'' \<or> c = CHR ''G'')"
    "cmatch f (Lit CHR ''I'') c = (c = CHR ''i'' \<or> c = CHR ''I'')"
    "cmatch f (Lit CHR ''N'') c = (c = CHR ''n'' \<or> c = CHR ''N'')"
    "cmatch f (Lit CHR ''O'') c = (c = CHR ''o'' \<or> c = CHR ''O'')"
    "cmatch f (Lit CHR ''R'') c = (c = CHR ''r'' \<or> c = CHR ''R'')"
    "cmatch f (Lit CHR ''S'') c = (c = CHR ''s'' \<or> c = CHR ''S'')"
    "cmatch f (Lit CHR ''T'') c = (c = CHR ''t'' \<or> c = CHR ''T'')"
    "cmatch f (Lit CHR ''U'') c = (c = CHR ''u'' \<or> c = CHR ''U'')"
    "cmatch f (Lit CHR ''V'') c = (c = CHR ''v'' \<or> c = CHR ''V'')"
    "cmatch f (Lit CHR ''X'') c = (c = CHR ''x'' \<or> c = CHR ''X'')"
    "cmatch f (Lit CHR ''Y'') c = (c = CHR ''y'' \<or> c = CHR ''Y'')"
    "cmatch f (Lit CHR ''d'') c = (c = CHR ''d'' \<or> c = CHR ''D'')"
    "cmatch f (Lit CHR ''e'') c = (c = CHR ''e'' \<or> c = CHR ''E'')"
    "cmatch f (Lit CHR ''g'') c = (c = CHR ''g'' \<or> c = CHR ''G'')"
    "cmatch f (Lit CHR ''h'') c = (c = CHR ''h'' \<or> c = CHR ''H'')"
    "cmatch f (Lit CHR ''i'') c = (c = CHR ''i'' \<or> c = CHR ''I'')"
    "cmatch f (Lit CHR ''l'') c = (c = CHR ''l'' \<or> c = CHR ''L'')"
    "cmatch f (Lit CHR ''m'') c = (c = CHR ''m'' \<or> c = CHR ''M'')"
    "cmatch f (Lit CHR ''o'') c = (c = CHR ''o'' \<or> c = CHR ''O'')"
    "cmatch f (Lit CHR ''u'') c = (c = CHR ''u'' \<or> c = CHR ''U'')"
    "cmatch f (Lit CHR ''w'') c = (c = CHR ''w'' \<or> c = CHR ''W'')"
    "cmatch f (Lit CHR '' '') c = (c = CHR '' '')"
    "cmatch f (Lit CHR '':'') c = (c = CHR '':'')"
    "cmatch f (Lit CHR ''%'') c = (c = CHR ''%'')"
    "cmatch f (Lit NL) c = (c = NL)"
  by ((rule icase_upper[OF assms], simp add: UPPERCASE_def LOWERCASE_def)+,
      (rule icase_lower[OF assms], simp add: UPPERCASE_def LOWERCASE_def)+,
      (rule icase_other[OF assms], simp add: UPPERCASE_def, simp add: LOWERCASE_def)+)

section \<open>Evaluating a search\<close>

lemma flag_simps:
  "ignorecase DOTALL_IGNORECASE" "dotall DOTALL_IGNORECASE" "\<not> multiline DOTALL_IGNORECASE"
  "ignorecase IGNORECASE" "\<not> dotall IGNORECASE" "\<not> multiline IGNORECASE"
  "\<not> ignorecase MULTILINE" "\<not> dotall MULTILINE" "multiline MULTILINE"
  "\<not> ignorecase NOFLAGS" "\<not> dotall NOFLAGS" "\<not> multiline NOFLAGS"
  by (simp_all add: DOTALL_IGNORECASE_def IGNORECASE_def MULTILINE_def NOFLAGS_def)

lemma cmatch_lit_exact: "\<not> ignorecase f \<Longrightarrow> cmatch f (Lit a) c = (c = a)"
  by simp

lemma search_skip:
  "\<not> cmatch f (Lit a) c \<Longrightarrow>
   search_from f (Seq (Lits (a # as) # rs)) pv (c # cs) =
     search_from f (Seq (Lits (a # as) # rs)) (Some c) cs"
  by (simp add: start_def)

lemma search_try:
  "cmatch f (Lit a) c \<Longrightarrow>
   search_from f (Seq (Lits (a # as) # rs)) pv (c # cs) =
     (case matches f (Seq (Lits (a # as) # rs)) (start pv (c # cs)) of
        [] \<Rightarrow> search_from f (Seq (Lits (a # as) # rs)) (Some c) cs
      | m # _ \<Rightarrow> Some m)"
  by simp

lemmas eval_simps =
  flag_simps icase_lit[OF flag_simps(1)] icase_lit[OF flag_simps(4)] cmatch_lit_exact
  search_skip search_try at_def start_def group_def re_search_def re_findall_def re_sub_def
  py_isspace_def WHITESPACE_def py_isdigit_def colon_or_space_def

section \<open>The sample reply\<close>

lemma sample_root_cause:
  "scan_root_cause SAMPLE_REPLY a = a\<lparr>root_cause := ''Token expired.''\<rparr>"
  unfolding SAMPLE_REPLY_def
  by (simp add: scan_root_cause_def root_cause_re_def spaces_re_def eval_simps py_strip_def
        py_endswith_dot_def
      del: cmatch.simps(1) search_from.simps(2))

lemma sample_fixes:
  "scan_fixes SAMPLE_REPLY a = a\<lparr>suggested_fixes := [''Regenerate token'', ''Check expiry'']\<rparr>"
  unfolding SAMPLE_REPLY_def
  by (simp add: scan_fixes_def fixes_re_def bullet_re_def eval_simps py_strip_def
      del: cmatch.simps(1) search_from.simps(2))

lemma sample_confidence:
  "scan_confidence SAMPLE_REPLY a = Inr (a\<lparr>confidence := 85\<rparr>)"
  unfolding SAMPLE_REPLY_def
  by (simp add: scan_confidence_def confidence_re_def eval_simps py_int_def digits_value_def
        INT_MAX_STR_DIGITS_def
      del: cmatch.simps(1) search_from.simps(2))

lemma sample_severity:
  "scan_severity SAMPLE_REPLY a = a\<lparr>severity := ''high''\<rparr>"
  unfolding SAMPLE_REPLY_def
  by (simp add: scan_severity_def severity_re_def eval_simps py_lower_def py_lower_char_def
        UPPERCASE_def LOWERCASE_def
      del: cmatch.simps(1) search_from.simps(2))

text \<open>
  C2: extraction of the sample reply gives the root cause \<open>Token expired.\<close>, the
  fixes \<open>Regenerate token\<close> and \<open>Check expiry\<close>, the confidence 85 and the
  severity \<open>high\<close>.
\<close>

theorem sample_extraction:
  "extract_analysis_fields SAMPLE_REPLY t =
     Inr \<lparr>root_cause = ''Token expired.'',
          suggested_fixes = [''Regenerate token'', ''Check expiry''],
          confidence = 85, severity = ''high'', tokens_used = t\<rparr>"
  unfolding extract_analysis_fields_def scans_def sample_root_cause sample_fixes
    sample_confidence sample_severity
  by (simp add: defaults_def fallback_def)

section \<open>Replies that the claims do not cover\<close>

lemmas scan_defs =
  extract_analysis_fields_def scans_def scan_root_cause_def scan_fixes_def scan_confidence_def
  scan_severity_def fallback_def defaults_def root_cause_re_def fixes_re_def bullet_re_def
  confidence_re_def severity_re_def spaces_re_def py_strip_def py_endswith_dot_def py_int_def
  digits_value_def INT_MAX_STR_DIGITS_def

text \<open>
  C1, as stated, fails: a reply with fixes and no root cause is returned with the empty
  root cause, since the fallback is taken only when both are empty.
\<close>

theorem empty_root_cause_returned:
  "extract_analysis_fields ''SUGGESTED FIXES:\<newline>- Retry'' (PyInt 0) =
     Inr \<lparr>root_cause = [], suggested_fixes = [''Retry''], confidence = 50,
          severity = ''medium'', tokens_used = PyInt 0\<rparr>"
  by (simp add: scan_defs eval_simps del: cmatch.simps(1) search_from.simps(2))

text \<open>
  C4, as stated, fails: a root cause that ends with an exclamation mark is modified,
  a full stop is put after it.
\<close>

theorem exclamation_gets_a_dot:
  "extract_analysis_fields ''ROOT CAUSE: It failed!'' (PyInt 0) =
     Inr \<lparr>root_cause = ''It failed!.'', suggested_fixes = [], confidence = 50,
          severity = ''medium'', tokens_used = PyInt 0\<rparr>"
  by (simp add: scan_defs eval_simps del: cmatch.simps(1) search_from.simps(2))

text \<open>
  C6, as stated, fails: the pattern of the confidence has digits only, so an integer
  with a sign after the label is not found, and the confidence returned is 50, not the
  integer clamped. The reply has no other label: the fallback gives the root cause and
  the fixes.
\<close>

theorem signed_confidence_not_found:
  "extract_analysis_fields ''CONFIDENCE: -5'' (PyInt 0) =
     Inr \<lparr>root_cause = ''CONFIDENCE: -5'', suggested_fixes = GENERIC_FIXES, confidence = 50,
          severity = ''medium'', tokens_used = PyInt 0\<rparr>"
  by (simp add: scan_defs eval_simps del: cmatch.simps(1) search_from.simps(2))

section \<open>The root cause\<close>

lemma greedy_hd: "\<exists>pv' tl. greedy p pv s = (pv', dropWhile p s) # tl"
proof (induction s arbitrary: pv)
  case Nil
  show ?case by simp
next
  case (Cons a s)
  show ?case
  proof (cases "p a")
    case True
    from Cons[of "Some a"] obtain pv' tl where
      "greedy p (Some a) s = (pv', dropWhile p s) # tl" by blast
    then show ?thesis using True by simp
  next
    case False
    then show ?thesis by simp
  qed
qed

lemma cmatch_Space: "cmatch f Space = py_isspace"
  by (rule ext) simp

lemma matches_spaces_Nil: "matches f spaces_re (start pv []) = []"
  by (simp add: spaces_re_def start_def)

lemma matches_spaces_other:
  "\<not> py_isspace c \<Longrightarrow> matches f spaces_re (start pv (c # cs)) = []"
  by (simp add: spaces_re_def start_def)

lemma matches_spaces_space:
  assumes "py_isspace c"
  shows "\<exists>m ms. matches f spaces_re (start pv (c # cs)) = m # ms \<and>
                 rest m = dropWhile py_isspace cs"
proof -
  from greedy_hd[of py_isspace "Some c" cs] obtain pv' tl where
    "greedy py_isspace (Some c) cs = (pv', dropWhile py_isspace cs) # tl" by blast
  then show ?thesis using assms by (simp add: spaces_re_def start_def at_def cmatch_Space)
qed

lemma sub_spaces: "sub_from f spaces_re '' '' pv s = collapse s"
proof (induction s arbitrary: pv rule: collapse.induct)
  case 1
  show ?case by (subst sub_from.simps) (simp add: matches_spaces_Nil)
next
  case (2 c cs)
  show ?case
  proof (cases "py_isspace c")
    case False
    then show ?thesis
      using 2(2)[OF False] by (subst sub_from.simps) (simp add: matches_spaces_other)
  next
    case True
    from matches_spaces_space[OF True, of f pv cs] obtain m ms where
      m: "matches f spaces_re (start pv (c # cs)) = m # ms" "rest m = dropWhile py_isspace cs"
      by blast
    have "length (dropWhile py_isspace cs) < length (c # cs)"
      by (simp add: length_dropWhile_le less_Suc_eq_le)
    then show ?thesis
      using 2(1)[OF True] True m by (subst sub_from.simps) simp
  qed
qed

lemma re_sub_spaces: "re_sub f spaces_re '' '' s = collapse s"
  by (simp only: re_sub_def sub_spaces)

lemma collapse_not_Nil: "s \<noteq> [] \<Longrightarrow> collapse s \<noteq> []"
  by (cases s) auto

lemma filter_dropWhile: "filter (\<lambda>c. \<not> p c) (dropWhile p s) = filter (\<lambda>c. \<not> p c) s"
  by (induction s) auto

lemma space_is_space: "py_isspace CHR '' ''"
  by (simp add: py_isspace_def WHITESPACE_def)

lemma filter_collapse:
  "filter (\<lambda>c. \<not> py_isspace c) (collapse s) = filter (\<lambda>c. \<not> py_isspace c) s"
  by (induction s rule: collapse.induct) (auto simp: filter_dropWhile space_is_space)

lemma filter_strip:
  "filter (\<lambda>c. \<not> py_isspace c) (py_strip s) = filter (\<lambda>c. \<not> py_isspace c) s"
proof -
  have "filter (\<lambda>c. \<not> py_isspace c) (py_strip s) =
        rev (filter (\<lambda>c. \<not> py_isspace c) (dropWhile py_isspace (rev (dropWhile py_isspace s))))"
    by (simp add: py_strip_def rev_filter)
  also have "\<dots> = rev (filter (\<lambda>c. \<not> py_isspace c) (rev (dropWhile py_isspace s)))"
    by (simp only: filter_dropWhile)
  also have "\<dots> = filter (\<lambda>c. \<not> py_isspace c) (dropWhile py_isspace s)"
    by (simp add: rev_filter)
  finally show ?thesis by (simp only: filter_dropWhile)
qed

lemma collapse_hd:
  assumes "collapse s = x # xs" and "py_isspace x"
  shows "\<exists>c cs. s = c # cs \<and> py_isspace c"
  using assms by (cases s) (auto split: if_splits)

lemma single_spaced_collapse: "single_spaced (collapse s)"
proof (induction s rule: collapse.induct)
  case 1
  show ?case by simp
next
  case (2 c cs)
  show ?case
  proof (cases "py_isspace c")
    case False
    then show ?thesis using 2(2)[OF False] by (cases "collapse cs") auto
  next
    case True
    show ?thesis
    proof (cases "collapse (dropWhile py_isspace cs)")
      case Nil
      then show ?thesis using True by simp
    next
      case (Cons d r)
      have "\<not> py_isspace d"
      proof
        assume "py_isspace d"
        from collapse_hd[OF Cons this] obtain e es where
          e: "dropWhile py_isspace cs = e # es" "py_isspace e" by blast
        then have "\<not> py_isspace (hd (dropWhile py_isspace cs))"
          using hd_dropWhile[of py_isspace cs] by auto
        with e show False by simp
      qed
      then show ?thesis using True Cons 2(1)[OF True] by simp
    qed
  qed
qed

lemma single_spaced_snoc:
  "single_spaced s \<Longrightarrow> \<not> py_isspace c \<Longrightarrow> single_spaced (s @ [c])"
  by (induction s rule: single_spaced.induct) auto

lemma root_cause_scan_fixes: "root_cause (scan_fixes content a) = root_cause a"
  by (simp add: scan_fixes_def Let_def split: option.split)

lemma root_cause_scan_severity: "root_cause (scan_severity content a) = root_cause a"
  by (simp add: scan_severity_def split: option.split)

lemma root_cause_scans:
  assumes "scans content t = Inr a"
  shows "root_cause a = root_cause (scan_root_cause content (defaults t))"
proof (cases "re_search IGNORECASE confidence_re content")
  case None
  with assms show ?thesis
    unfolding scans_cases by (auto simp: root_cause_scan_fixes root_cause_scan_severity)
next
  case (Some m)
  with assms show ?thesis
    unfolding scans_cases
    by (auto simp: root_cause_scan_fixes root_cause_scan_severity split: if_splits)
qed

lemma fallback_not_taken: "root_cause a \<noteq> [] \<Longrightarrow> fallback content a = a"
  by (simp add: fallback_def)

lemma scan_root_cause_Some:
  assumes "re_search DOTALL_IGNORECASE root_cause_re content = Some m"
  shows "root_cause (scan_root_cause content a) =
           (let body = collapse (py_strip (group m 1))
            in if body \<noteq> [] \<and> \<not> py_endswith_dot body then body @ ''.'' else body)"
  using assms by (simp add: scan_root_cause_def Let_def re_sub_spaces)

lemma dot_not_space: "\<not> py_isspace CHR ''.''"
  by (simp add: py_isspace_def WHITESPACE_def)

text \<open>
  C4, as amended: let the scan for the root cause find text that is not all white
  space, and let the reply have no labelled confidence of more than 4300 digits. Then
  extraction returns, and the root cause returned is the text found, stripped, with each
  run of white space replaced by one space, and with a full stop put after it unless it
  ends with a full stop already (after an exclamation or a question mark the full stop
  is added). The result has single spaces only, ends with a full stop, and has the
  characters of the text found that are not white space.
\<close>

theorem root_cause_collapsed:
  assumes "re_search DOTALL_IGNORECASE root_cause_re content = Some m"
    and "py_strip (group m 1) \<noteq> []"
    and "\<forall>c. re_search IGNORECASE confidence_re content = Some c \<longrightarrow>
           length (group c 1) \<le> INT_MAX_STR_DIGITS"
  shows "\<exists>a. extract_analysis_fields content t = Inr a \<and>
           (let body = re_sub NOFLAGS spaces_re '' '' (py_strip (group m 1));
                rc = root_cause a
            in rc = (if py_endswith_dot body then body else body @ ''.'') \<and>
               single_spaced rc \<and> py_endswith_dot rc \<and>
               filter (\<lambda>c. \<not> py_isspace c) body =
                 filter (\<lambda>c. \<not> py_isspace c) (group m 1))"
proof -
  define body where "body = collapse (py_strip (group m 1))"
  have ne: "body \<noteq> []" unfolding body_def using assms(2) by (rule collapse_not_Nil)
  have ss: "single_spaced body" unfolding body_def by (rule single_spaced_collapse)
  have fl: "filter (\<lambda>c. \<not> py_isspace c) body = filter (\<lambda>c. \<not> py_isspace c) (group m 1)"
    unfolding body_def by (simp only: filter_collapse filter_strip)
  define rc where "rc = (if py_endswith_dot body then body else body @ ''.'')"
  from scans_return[OF assms(3)] obtain a where a: "scans content t = Inr a" ..
  have sc: "root_cause a = rc"
    unfolding root_cause_scans[OF a] scan_root_cause_Some[OF assms(1)] rc_def
      body_def[symmetric]
    using ne by (simp add: Let_def)
  have rc_ne: "rc \<noteq> []" using ne by (simp add: rc_def)
  have e: "extract_analysis_fields content t = Inr a"
    unfolding extract_of_scans[OF a] using sc rc_ne by (simp add: fallback_not_taken)
  have 1: "single_spaced rc"
    using ss single_spaced_snoc[OF ss dot_not_space] by (simp add: rc_def)
  have 2: "py_endswith_dot rc"
    by (simp add: rc_def py_endswith_dot_def)
  have "let body = re_sub NOFLAGS spaces_re '' '' (py_strip (group m 1));
            rc = root_cause a
        in rc = (if py_endswith_dot body then body else body @ ''.'') \<and>
           single_spaced rc \<and> py_endswith_dot rc \<and>
           filter (\<lambda>c. \<not> py_isspace c) body = filter (\<lambda>c. \<not> py_isspace c) (group m 1)"
    using fl 1 2 unfolding Let_def re_sub_spaces body_def[symmetric] sc rc_def by simp
  with e show ?thesis by (intro exI[of _ a] conjI)
qed

theorem root_cause_collapsed_witness:
  "\<exists>m. re_search DOTALL_IGNORECASE root_cause_re
          ''ROOT CAUSE:  disk \<newline> is   full\<newline>SUGGESTED FIXES: none'' = Some m \<and>
       py_strip (group m 1) \<noteq> [] \<and>
       re_search IGNORECASE confidence_re
          ''ROOT CAUSE:  disk \<newline> is   full\<newline>SUGGESTED FIXES: none'' = None \<and>
       (\<exists>a. extract_analysis_fields
               ''ROOT CAUSE:  disk \<newline> is   full\<newline>SUGGESTED FIXES: none'' (PyInt 0) = Inr a \<and>
            root_cause a = ''disk is full.'')"
proof -
  obtain m where m: "re_search DOTALL_IGNORECASE root_cause_re
          ''ROOT CAUSE:  disk \<newline> is   full\<newline>SUGGESTED FIXES: none'' = Some m"
    and g: "group m 1 = ''disk \<newline> is   full''"
    by (simp add: root_cause_re_def eval_simps del: cmatch.simps(1) search_from.simps(2))
  have s: "py_strip (group m 1) = ''disk \<newline> is   full''"
    unfolding g by (simp add: py_strip_def py_isspace_def WHITESPACE_def)
  then have ne: "py_strip (group m 1) \<noteq> []" by simp
  have n: "re_search IGNORECASE confidence_re
          ''ROOT CAUSE:  disk \<newline> is   full\<newline>SUGGESTED FIXES: none'' = None"
    by (simp add: confidence_re_def eval_simps del: cmatch.simps(1) search_from.simps(2))
  then have r: "\<forall>c. re_search IGNORECASE confidence_re
          ''ROOT CAUSE:  disk \<newline> is   full\<newline>SUGGESTED FIXES: none'' = Some c \<longrightarrow>
            length (group c 1) \<le> INT_MAX_STR_DIGITS"
    by simp
  have c: "collapse ''disk \<newline> is   full'' = ''disk is full''"
    by (simp add: py_isspace_def WHITESPACE_def)
  from root_cause_collapsed[OF m ne r, of "PyInt 0"] obtain a where
    e: "extract_analysis_fields
          ''ROOT CAUSE:  disk \<newline> is   full\<newline>SUGGESTED FIXES: none'' (PyInt 0) = Inr a"
    and l: "let body = re_sub NOFLAGS spaces_re '' '' (py_strip (group m 1));
                rc = root_cause a
            in rc = (if py_endswith_dot body then body else body @ ''.'') \<and>
               single_spaced rc \<and> py_endswith_dot rc \<and>
               filter (\<lambda>c. \<not> py_isspace c) body =
                 filter (\<lambda>c. \<not> py_isspace c) (group m 1)"
    by (elim exE conjE)
  from l have rc: "root_cause a = ''disk is full.''"
    unfolding Let_def re_sub_spaces s c by (simp add: py_endswith_dot_def)
  have "\<exists>a. extract_analysis_fields
               ''ROOT CAUSE:  disk \<newline> is   full\<newline>SUGGESTED FIXES: none'' (PyInt 0) = Inr a \<and>
            root_cause a = ''disk is full.''"
    by (rule exI[of _ a]) (intro conjI e rc)
  then show ?thesis by (intro exI[of _ m] conjI m ne n)
qed

section \<open>The confidence\<close>

lemma cmatch_Digit: "cmatch f Digit = py_isdigit"
  by (rule ext) simp

lemma colon_icase: "ignorecase f \<Longrightarrow> cmatch f (Lit CHR '':'') c = (c = CHR '':'')"
  by (rule icase_other) (simp_all add: UPPERCASE_def LOWERCASE_def)

lemma cmatch_colon_or_space:
  "ignorecase f \<Longrightarrow> cmatch f colon_or_space = (\<lambda>c. c = CHR '':'' \<or> py_isspace c)"
  by (rule ext) (simp add: colon_or_space_def colon_icase del: cmatch.simps(1))

lemma digit_not_sep: "py_isdigit c \<Longrightarrow> \<not> (c = CHR '':'' \<or> py_isspace c)"
  by (auto simp: py_isdigit_def py_isspace_def WHITESPACE_def)

lemma groups_at: "groups (at st p) = groups st"
  by (simp add: at_def)

lemma rest_at: "rest (at st p) = snd p"
  by (simp add: at_def)

lemma opt_seq:
  "matches_seq f [Opt k] st = map (at st) (one (cmatch f k) (prev st) (rest st)) @ [st]"
  by (simp add: comp_def)

lemma opt_seq_not_Nil: "matches_seq f [Opt k] st \<noteq> []"
  by (simp only: opt_seq) simp

lemma opt_seq_groups: "m \<in> set (matches_seq f [Opt k] st) \<Longrightarrow> groups m = groups st"
  unfolding opt_seq by (auto simp: groups_at)

lemma take_minus_dropWhile:
  "take (length s - length (dropWhile p s)) s = takeWhile p s"
proof -
  have "length s - length (dropWhile p s) = length (takeWhile p s)"
    by (metis add_diff_cancel_right' length_append takeWhile_dropWhile_id)
  then show ?thesis
    by (metis append_eq_conv_conj takeWhile_dropWhile_id)
qed

lemma plus_digit_Nil:
  "(matches f (Plus Digit) st = []) = (takeWhile py_isdigit (rest st) = [])"
proof (cases "rest st")
  case Nil
  then show ?thesis by simp
next
  case (Cons d ds)
  show ?thesis
  proof (cases "py_isdigit d")
    case False
    then show ?thesis using Cons by simp
  next
    case True
    from greedy_hd[of py_isdigit "Some d" ds] obtain pv' tl where
      "greedy py_isdigit (Some d) ds = (pv', dropWhile py_isdigit ds) # tl" by blast
    then show ?thesis using Cons True by (simp add: cmatch_Digit)
  qed
qed

lemma plus_digit_hd:
  assumes "matches f (Plus Digit) st = m # ms"
  shows "rest m = dropWhile py_isdigit (rest st) \<and> groups m = groups st"
proof (cases "rest st")
  case Nil
  with assms show ?thesis by simp
next
  case (Cons d ds)
  show ?thesis
  proof (cases "py_isdigit d")
    case False
    with assms Cons show ?thesis by simp
  next
    case True
    from greedy_hd[of py_isdigit "Some d" ds] obtain pv' tl where
      "greedy py_isdigit (Some d) ds = (pv', dropWhile py_isdigit ds) # tl" by blast
    with assms Cons True show ?thesis by (auto simp: cmatch_Digit at_def)
  qed
qed

lemma group_plus_digit_Nil:
  "(matches f (Group n (Plus Digit)) st = []) = (takeWhile py_isdigit (rest st) = [])"
  using plus_digit_Nil[of f st] by (simp del: matches.simps(4) add: matches.simps(9))

lemma group_unfold:
  "matches f (Group n r) st =
     map (\<lambda>m. m\<lparr>groups := (groups m)(n \<mapsto> take (length (rest st) - length (rest m)) (rest st))\<rparr>)
         (matches f r st)"
  by (simp only: matches.simps)

lemma group_plus_digit_hd:
  assumes "matches f (Group n (Plus Digit)) st = m # ms"
  shows "groups m = (groups st)(n \<mapsto> takeWhile py_isdigit (rest st))"
proof (cases "matches f (Plus Digit) st")
  case Nil
  with assms show ?thesis unfolding group_unfold by (simp del: matches.simps)
next
  case (Cons m' ms')
  from plus_digit_hd[OF Cons] have r: "rest m' = dropWhile py_isdigit (rest st)"
    and g: "groups m' = groups st" by simp_all
  have "m = m'\<lparr>groups := (groups m')(n \<mapsto> take (length (rest st) - length (rest m')) (rest st))\<rparr>"
    using assms unfolding group_unfold Cons by (simp del: matches.simps)
  then show ?thesis
    unfolding r g by (simp add: take_minus_dropWhile)
qed

lemma digits_then_opt:
  "matches_seq f [Group n (Plus Digit), Opt k] st =
     concat (map (matches_seq f [Opt k]) (matches f (Group n (Plus Digit)) st))"
  by (simp only: matches_seq.simps)

lemma digits_then_opt_Nil:
  "(matches_seq f [Group n (Plus Digit), Opt k] st = []) = (takeWhile py_isdigit (rest st) = [])"
proof (cases "matches f (Group n (Plus Digit)) st")
  case Nil
  then have "takeWhile py_isdigit (rest st) = []"
    by (simp add: group_plus_digit_Nil del: matches.simps)
  then show ?thesis unfolding digits_then_opt Nil by (simp del: matches.simps)
next
  case (Cons g gs)
  then have "matches f (Group n (Plus Digit)) st \<noteq> []" by (simp del: matches.simps)
  then have 1: "takeWhile py_isdigit (rest st) \<noteq> []"
    by (simp add: group_plus_digit_Nil del: matches.simps)
  have "matches_seq f [Opt k] g \<noteq> []" by (rule opt_seq_not_Nil)
  then have "concat (map (matches_seq f [Opt k]) (g # gs)) \<noteq> []"
    by (simp del: matches_seq.simps matches.simps)
  then show ?thesis
    unfolding digits_then_opt Cons using 1 by (simp del: matches_seq.simps matches.simps)
qed

lemma digits_then_opt_hd:
  assumes "matches_seq f [Group n (Plus Digit), Opt k] st = m # ms"
  shows "groups m = (groups st)(n \<mapsto> takeWhile py_isdigit (rest st))"
proof (cases "matches f (Group n (Plus Digit)) st")
  case Nil
  with assms show ?thesis
    unfolding digits_then_opt by (simp del: matches_seq.simps matches.simps)
next
  case (Cons g gs)
  obtain o1 os where o: "matches_seq f [Opt k] g = o1 # os"
    using opt_seq_not_Nil[of f k g] by (cases "matches_seq f [Opt k] g") auto
  have "o1 \<in> set (matches_seq f [Opt k] g)" unfolding o by simp
  then have g: "groups o1 = groups g" by (rule opt_seq_groups)
  have "m = o1"
    using assms unfolding digits_then_opt Cons
    by (simp add: o del: matches_seq.simps matches.simps)
  with g group_plus_digit_hd[OF Cons] show ?thesis by (simp del: matches.simps)
qed

lemma greedy_tl:
  assumes "greedy p pv s = x # ts" and "y \<in> set ts"
  shows "snd y \<noteq> [] \<and> p (hd (snd y))"
  using assms
proof (induction s arbitrary: pv x ts)
  case Nil
  then show ?case by simp
next
  case (Cons a s)
  show ?case
  proof (cases "p a")
    case False
    with Cons.prems show ?thesis by simp
  next
    case True
    from greedy_hd[of p "Some a" s] obtain pv' ts2 where
      g: "greedy p (Some a) s = (pv', dropWhile p s) # ts2" by blast
    with Cons.prems True have "ts = ts2 @ [(pv, a # s)]" by simp
    with Cons.prems(2) have "y \<in> set ts2 \<or> y = (pv, a # s)" by auto
    then show ?thesis
    proof
      assume "y \<in> set ts2"
      with Cons.IH[OF g] show ?thesis .
    next
      assume "y = (pv, a # s)"
      with True show ?thesis by simp
    qed
  qed
qed

lemma concat_map_all_Nil: "(\<And>y. y \<in> set ys \<Longrightarrow> g y = []) \<Longrightarrow> concat (map g ys) = []"
  by (induction ys) auto

lemma star_unfold:
  "matches_seq f (Star k # rs) st =
     concat (map (matches_seq f rs) (map (at st) (greedy (cmatch f k) (prev st) (rest st))))"
  by (simp only: matches_seq.simps matches.simps)

lemma sep_then_digits:
  assumes "ignorecase f"
  shows "\<exists>pv'. matches_seq f [Star colon_or_space, Group n (Plus Digit), Opt k] st =
           matches_seq f [Group n (Plus Digit), Opt k]
             (at st (pv', dropWhile (\<lambda>c. c = CHR '':'' \<or> py_isspace c) (rest st)))"
proof -
  let ?sep = "\<lambda>c. c = CHR '':'' \<or> py_isspace c"
  let ?R = "[Group n (Plus Digit), Opt k]"
  from greedy_hd[of ?sep "prev st" "rest st"] obtain pv' ts where
    g: "greedy ?sep (prev st) (rest st) = (pv', dropWhile ?sep (rest st)) # ts" by blast
  have "matches_seq f ?R (at st y) = []" if "y \<in> set ts" for y
  proof -
    from greedy_tl[OF g that] have "snd y \<noteq> []" "?sep (hd (snd y))" by simp_all
    then have "takeWhile py_isdigit (snd y) = []"
      using digit_not_sep[of "hd (snd y)"] by (cases "snd y") auto
    then show ?thesis by (simp only: digits_then_opt_Nil rest_at)
  qed
  then have "concat (map (matches_seq f ?R) (map (at st) ts)) = []"
    by (intro concat_map_all_Nil) auto
  then have "matches_seq f (Star colon_or_space # ?R) st =
               matches_seq f ?R (at st (pv', dropWhile ?sep (rest st)))"
    unfolding star_unfold cmatch_colon_or_space[OF assms] g
    by (simp del: matches_seq.simps matches.simps)
  then show ?thesis by blast
qed

lemma lits_icase_Nil:
  assumes "ignorecase f"
  shows "(lits f as pv s = []) =
           (\<not> (length as \<le> length s \<and> py_lower (take (length as) s) = py_lower as))"
  using assms by (induction f as pv s rule: lits.induct) (auto simp: py_lower_def)

lemma lits_hd:
  "lits f as pv s = x # xs \<Longrightarrow> snd x = drop (length as) s \<and> xs = []"
  by (induction f as pv s rule: lits.induct) (auto split: if_splits)

lemma lower_CONFIDENCE: "py_lower ''CONFIDENCE'' = ''confidence''"
  by (simp add: py_lower_def py_lower_char_def UPPERCASE_def LOWERCASE_def)

lemma take10_label:
  "(10 \<le> length s \<and> py_lower (take 10 s) = ''confidence'') =
   (py_lower (take 10 s) = ''confidence'')"
proof (cases "10 \<le> length s")
  case True
  then show ?thesis by simp
next
  case False
  then have "length (py_lower (take 10 s)) \<noteq> length ''confidence''"
    by (simp add: py_lower_def)
  then have "py_lower (take 10 s) \<noteq> ''confidence''" by metis
  with False show ?thesis by simp
qed

lemma length_CONFIDENCE: "length ''CONFIDENCE'' = 10"
  by simp

lemma lits_then_unfold:
  "matches f (Seq (Lits as # rs)) st =
     concat (map (matches_seq f rs) (map (at st) (lits f as (prev st) (rest st))))"
  by (simp only: matches_seq.simps matches.simps)

lemma confidence_matches:
  "(matches IGNORECASE confidence_re (start pv s) = []) = (confidence_digits s = None)"
  "matches IGNORECASE confidence_re (start pv s) = m # ms \<Longrightarrow>
     confidence_digits s = Some (group m 1)"
proof -
  let ?f = IGNORECASE
  let ?sep = "\<lambda>c. c = CHR '':'' \<or> py_isspace c"
  let ?R = "[Group 1 (Plus Digit), Opt (Lit CHR ''%'')]"
  let ?st = "start pv s"
  have ic: "ignorecase ?f" by (rule flag_simps)
  have u: "matches ?f confidence_re ?st =
             concat (map (matches_seq ?f (Star colon_or_space # ?R))
                         (map (at ?st) (lits ?f ''CONFIDENCE'' pv s)))"
    unfolding confidence_re_def lits_then_unfold by (simp add: start_def)
  show a: "(matches ?f confidence_re ?st = []) = (confidence_digits s = None)"
   and b: "matches ?f confidence_re ?st = m # ms \<Longrightarrow> confidence_digits s = Some (group m 1)"
  proof -
    consider (none) "lits ?f ''CONFIDENCE'' pv s = []"
      | (some) x where "lits ?f ''CONFIDENCE'' pv s = [x]" "snd x = drop 10 s"
    proof (cases "lits ?f ''CONFIDENCE'' pv s")
      case Nil
      then show ?thesis by (rule that(1))
    next
      case (Cons x xs)
      from lits_hd[OF Cons] have "snd x = drop 10 s" "xs = []"
        unfolding length_CONFIDENCE by simp_all
      with Cons show ?thesis by (intro that(2)[of x]) simp_all
    qed
    then have "((matches ?f confidence_re ?st = []) = (confidence_digits s = None)) \<and>
               (matches ?f confidence_re ?st = m # ms \<longrightarrow> confidence_digits s = Some (group m 1))"
    proof cases
      case none
      then have "\<not> (10 \<le> length s \<and> py_lower (take 10 s) = ''confidence'')"
        using lits_icase_Nil[OF ic, of "''CONFIDENCE''" pv s]
        unfolding length_CONFIDENCE lower_CONFIDENCE by simp
      then have "confidence_digits s = None"
        unfolding take10_label by (simp add: confidence_digits_def)
      moreover have "matches ?f confidence_re ?st = []" unfolding u none by simp
      ultimately show ?thesis by simp
    next
      case some
      have "lits ?f ''CONFIDENCE'' pv s \<noteq> []" using some by simp
      then have lab: "py_lower (take 10 s) = ''confidence''"
        using lits_icase_Nil[OF ic, of "''CONFIDENCE''" pv s]
        unfolding length_CONFIDENCE lower_CONFIDENCE by simp
      from sep_then_digits[OF ic, of 1 "Lit CHR ''%''" "at ?st x"] obtain pv' where
        e: "matches_seq ?f (Star colon_or_space # ?R) (at ?st x) =
              matches_seq ?f ?R (at (at ?st x) (pv', dropWhile ?sep (rest (at ?st x))))"
        by blast
      let ?st2 = "at (at ?st x) (pv', dropWhile ?sep (drop 10 s))"
      have m: "matches ?f confidence_re ?st = matches_seq ?f ?R ?st2"
        unfolding u some(1) using e
        by (simp add: rest_at some(2) del: matches_seq.simps matches.simps)
      have r2: "rest ?st2 = dropWhile ?sep (drop 10 s)" by (simp add: rest_at)
      have g2: "groups ?st2 = Map.empty" by (simp add: groups_at start_def)
      let ?ds = "takeWhile py_isdigit (dropWhile ?sep (drop 10 s))"
      have cd: "confidence_digits s = (if ?ds = [] then None else Some ?ds)"
        using lab by (simp add: confidence_digits_def Let_def)
      have 1: "(matches ?f confidence_re ?st = []) = (?ds = [])"
        unfolding m digits_then_opt_Nil r2 ..
      have 2: "group m 1 = ?ds" if "matches ?f confidence_re ?st = m # ms"
        using digits_then_opt_hd[of ?f 1 "Lit CHR ''%''" ?st2 m ms] that
        unfolding m r2 g2 by (simp add: group_def)
      show ?thesis using 1 2 cd by auto
    qed
    then show "(matches ?f confidence_re ?st = []) = (confidence_digits s = None)"
      and "matches ?f confidence_re ?st = m # ms \<Longrightarrow> confidence_digits s = Some (group m 1)"
      by simp_all
  qed
qed

lemma search_confidence_None:
  "search_from IGNORECASE confidence_re pv s = None \<Longrightarrow> confidence_digits (drop k s) = None"
proof (induction s arbitrary: pv k)
  case Nil
  then have "matches IGNORECASE confidence_re (start pv []) = []"
    by (simp del: matches.simps split: list.splits)
  then show ?case by (simp add: confidence_matches(1) del: matches.simps)
next
  case (Cons c cs)
  from Cons.prems have e: "matches IGNORECASE confidence_re (start pv (c # cs)) = []"
    and r: "search_from IGNORECASE confidence_re (Some c) cs = None"
    by (simp_all del: matches.simps split: list.splits)
  from e have 0: "confidence_digits (c # cs) = None" by (simp only: confidence_matches(1))
  show ?case
  proof (cases k)
    case 0
    with \<open>confidence_digits (c # cs) = None\<close> show ?thesis by simp
  next
    case (Suc k')
    with Cons.IH[OF r, of k'] show ?thesis by simp
  qed
qed

lemma search_confidence_Some:
  "search_from IGNORECASE confidence_re pv s = Some m \<Longrightarrow>
   \<exists>k. confidence_digits (drop k s) = Some (group m 1) \<and>
       (\<forall>j<k. confidence_digits (drop j s) = None)"
proof (induction s arbitrary: pv)
  case Nil
  then obtain ms where "matches IGNORECASE confidence_re (start pv []) = m # ms"
    by (auto simp del: matches.simps split: list.splits)
  from confidence_matches(2)[OF this] have "confidence_digits (drop 0 []) = Some (group m 1)"
    by simp
  then show ?case by blast
next
  case (Cons c cs)
  show ?case
  proof (cases "matches IGNORECASE confidence_re (start pv (c # cs))")
    case Nil
    with Cons.prems have r: "search_from IGNORECASE confidence_re (Some c) cs = Some m"
      by (simp del: matches.simps)
    from Nil have 0: "confidence_digits (c # cs) = None" by (simp only: confidence_matches(1))
    from Cons.IH[OF r] obtain k where
      k: "confidence_digits (drop k cs) = Some (group m 1)"
         "\<forall>j<k. confidence_digits (drop j cs) = None" by blast
    have "\<forall>j<Suc k. confidence_digits (drop j (c # cs)) = None"
    proof (intro allI impI)
      fix j assume "j < Suc k"
      then show "confidence_digits (drop j (c # cs)) = None"
        using 0 k(2) by (cases j) simp_all
    qed
    moreover have "confidence_digits (drop (Suc k) (c # cs)) = Some (group m 1)"
      using k(1) by simp
    ultimately show ?thesis by blast
  next
    case (Cons m' ms)
    with Cons.prems have "m' = m" by (simp del: matches.simps)
    with confidence_matches(2)[OF Cons]
    have "confidence_digits (drop 0 (c # cs)) = Some (group m 1)" by simp
    then show ?thesis by blast
  qed
qed

lemma digits_imp_label:
  assumes "confidence_digits s = Some ds"
  shows "confidence_label s ds"
proof -
  let ?sep = "\<lambda>c. c = CHR '':'' \<or> py_isspace c"
  from assms have lab: "py_lower (take 10 s) = ''confidence''"
    and ds: "ds = takeWhile py_isdigit (dropWhile ?sep (drop 10 s))" and ne: "ds \<noteq> []"
    by (auto simp: confidence_digits_def Let_def split: if_splits)
  let ?r = "dropWhile py_isdigit (dropWhile ?sep (drop 10 s))"
  have "s = take 10 s @ drop 10 s" by simp
  also have "drop 10 s = takeWhile ?sep (drop 10 s) @ dropWhile ?sep (drop 10 s)" by simp
  also have "dropWhile ?sep (drop 10 s) = ds @ ?r" unfolding ds by simp
  finally have s: "s = take 10 s @ takeWhile ?sep (drop 10 s) @ ds @ ?r" .
  have 1: "\<forall>c\<in>set (takeWhile ?sep (drop 10 s)). ?sep c" by (auto dest: set_takeWhileD)
  have 2: "\<forall>c\<in>set ds. py_isdigit c" unfolding ds by (auto dest: set_takeWhileD)
  have 3: "?r = [] \<or> \<not> py_isdigit (hd ?r)" using hd_dropWhile[of py_isdigit] by blast
  show ?thesis
    unfolding confidence_label_def
    by (rule exI[of _ "take 10 s"], rule exI[of _ "takeWhile ?sep (drop 10 s)"],
        rule exI[of _ ?r]) (intro conjI s lab 1 ne 2 3)
qed

lemma label_imp_digits:
  assumes "confidence_label s ds"
  shows "confidence_digits s = Some ds"
proof -
  let ?sep = "\<lambda>c. c = CHR '':'' \<or> py_isspace c"
  from assms obtain lab sep r where s: "s = lab @ sep @ ds @ r"
    and lab: "py_lower lab = ''confidence''" and sep: "\<forall>c\<in>set sep. ?sep c"
    and ne: "ds \<noteq> []" and ds: "\<forall>c\<in>set ds. py_isdigit c"
    and r: "r = [] \<or> \<not> py_isdigit (hd r)"
    unfolding confidence_label_def by (elim exE conjE)
  have "length (py_lower lab) = 10" unfolding lab by simp
  then have len: "length lab = 10" by (simp add: py_lower_def)
  have t: "take 10 s = lab" and d: "drop 10 s = sep @ ds @ r" using s len by simp_all
  obtain d0 ds0 where ds0: "ds = d0 # ds0" using ne by (cases ds) auto
  have "py_isdigit d0" using ds ds0 by simp
  then have "\<not> ?sep d0" by (rule digit_not_sep)
  then have "dropWhile ?sep (ds @ r) = ds @ r" unfolding ds0 by simp
  then have dw: "dropWhile ?sep (sep @ ds @ r) = ds @ r"
    using sep by (simp add: dropWhile_append2)
  have "takeWhile py_isdigit r = []" using r by (cases r) auto
  then have tw: "takeWhile py_isdigit (ds @ r) = ds"
    using ds by (simp add: takeWhile_append2)
  show ?thesis
    unfolding confidence_digits_def t d dw tw Let_def using lab ne by simp
qed

lemma search_confidence_leftmost:
  assumes "confidence_label (drop k content) ds"
    and "\<forall>j<k. \<forall>ds'. \<not> confidence_label (drop j content) ds'"
  shows "\<exists>m. re_search IGNORECASE confidence_re content = Some m \<and> group m 1 = ds"
proof -
  from assms(1) have at_k: "confidence_digits (drop k content) = Some ds"
    by (rule label_imp_digits)
  have before: "confidence_digits (drop j content) = None" if "j < k" for j
  proof (cases "confidence_digits (drop j content)")
    case None
    then show ?thesis .
  next
    case (Some ds')
    then have "confidence_label (drop j content) ds'" by (rule digits_imp_label)
    with assms(2) that show ?thesis by blast
  qed
  show ?thesis
  proof (cases "re_search IGNORECASE confidence_re content")
    case None
    then have "confidence_digits (drop k content) = None"
      unfolding re_search_def by (rule search_confidence_None)
    with at_k show ?thesis by simp
  next
    case (Some m)
    from search_confidence_Some[OF Some[unfolded re_search_def]] obtain k' where
      k': "confidence_digits (drop k' content) = Some (group m 1)"
          "\<forall>j<k'. confidence_digits (drop j content) = None" by blast
    have "k' = k"
    proof (rule ccontr)
      assume "k' \<noteq> k"
      then consider "k' < k" | "k < k'" by linarith
      then show False
      proof cases
        case 1
        with before[of k'] k'(1) show False by simp
      next
        case 2
        with k'(2) at_k show False by simp
      qed
    qed
    with k'(1) at_k have "group m 1 = ds" by simp
    with Some show ?thesis by simp
  qed
qed

lemma search_confidence_absent:
  assumes "\<forall>k ds'. \<not> confidence_label (drop k content) ds'"
  shows "re_search IGNORECASE confidence_re content = None"
proof (cases "re_search IGNORECASE confidence_re content")
  case None
  then show ?thesis .
next
  case (Some m)
  from search_confidence_Some[OF Some[unfolded re_search_def]] obtain k' where
    "confidence_digits (drop k' content) = Some (group m 1)" by blast
  then have "confidence_label (drop k' content) (group m 1)" by (rule digits_imp_label)
  with assms show ?thesis by blast
qed

lemma confidence_fallback: "confidence (fallback content a) = confidence a"
  by (simp add: fallback_def Let_def)

lemma confidence_scan_severity: "confidence (scan_severity content a) = confidence a"
  by (simp add: scan_severity_def split: option.split)

lemma confidence_scan_fixes: "confidence (scan_fixes content a) = confidence a"
  by (simp add: scan_fixes_def Let_def split: option.split)

lemma confidence_scan_root_cause: "confidence (scan_root_cause content a) = confidence a"
  by (simp add: scan_root_cause_def Let_def split: option.split)

lemma confidence_None:
  assumes "re_search IGNORECASE confidence_re content = None"
  shows "\<exists>a. extract_analysis_fields content t = Inr a \<and> confidence a = 50"
  unfolding extract_analysis_fields_def scans_cases assms
  by (simp add: confidence_fallback confidence_scan_severity confidence_scan_fixes
        confidence_scan_root_cause defaults_def)

lemma confidence_Some:
  assumes "re_search IGNORECASE confidence_re content = Some m"
    and "length (group m 1) \<le> INT_MAX_STR_DIGITS"
  shows "\<exists>a. extract_analysis_fields content t = Inr a \<and>
             confidence a = min 100 (max 0 (digits_value (group m 1)))"
  unfolding extract_analysis_fields_def scans_cases assms(1) using assms(2)
  by (simp add: confidence_fallback confidence_scan_severity)

text \<open>
  The number that a digit string denotes in decimal: the conversion computes it.
\<close>

lemma digits_value_snoc: "digits_value (s @ [c]) = 10 * digits_value s + (of_char c - 48)"
  by (simp add: digits_value_def)

lemma digits_value_sum:
  "digits_value s = (\<Sum>i<length s. (of_char (s ! i) - 48) * 10 ^ (length s - Suc i))"
proof (induction s rule: rev_induct)
  case Nil
  then show ?case by (simp add: digits_value_def)
next
  case (snoc c s)
  have p: "(10::int) ^ (length s - i) = 10 * 10 ^ (length s - Suc i)" if "i < length s" for i
    using that by (simp only: Suc_diff_Suc[symmetric] power_Suc)
  have "(\<Sum>i<length s. (of_char ((s @ [c]) ! i) - 48) * (10::int) ^ (length (s @ [c]) - Suc i)) =
        (\<Sum>i<length s. 10 * ((of_char (s ! i) - 48) * 10 ^ (length s - Suc i)))"
    by (rule sum.cong) (simp_all add: nth_append p)
  also have "\<dots> = 10 * digits_value s"
    unfolding snoc.IH by (simp only: sum_distrib_left)
  finally have "(\<Sum>i<length (s @ [c]).
                   (of_char ((s @ [c]) ! i) - 48) * (10::int) ^ (length (s @ [c]) - Suc i)) =
                10 * digits_value s + (of_char c - 48)"
    by simp
  then show ?case by (simp only: digits_value_snoc)
qed

text \<open>
  C6, as amended: when the reply has a labelled confidence at position \<open>k\<close> with the
  digits \<open>ds\<close>, none before \<open>k\<close>, and \<open>ds\<close> has no more digits than the
  interpreter converts (4300), extraction returns and the confidence returned is the
  number that \<open>ds\<close> denotes in decimal, clamped to the range from 0 to 100; when the
  reply has no labelled confidence at any position, extraction returns and the
  confidence returned is 50.
\<close>

theorem confidence_clamped:
  "(confidence_label (drop k content) ds \<and>
    (\<forall>j<k. \<forall>ds'. \<not> confidence_label (drop j content) ds') \<and>
    length ds \<le> INT_MAX_STR_DIGITS \<longrightarrow>
      (\<exists>a. extract_analysis_fields content t = Inr a \<and>
           confidence a =
             min 100 (max 0 (\<Sum>i<length ds. (of_char (ds ! i) - 48) * 10 ^ (length ds - Suc i))))) \<and>
   ((\<forall>k ds'. \<not> confidence_label (drop k content) ds') \<longrightarrow>
      (\<exists>a. extract_analysis_fields content t = Inr a \<and> confidence a = 50))"
proof (intro conjI impI)
  assume a: "confidence_label (drop k content) ds \<and>
    (\<forall>j<k. \<forall>ds'. \<not> confidence_label (drop j content) ds') \<and>
    length ds \<le> INT_MAX_STR_DIGITS"
  then have 1: "confidence_label (drop k content) ds" by (rule conjunct1)
  from a have 2: "\<forall>j<k. \<forall>ds'. \<not> confidence_label (drop j content) ds'"
    by (rule conjunct2[THEN conjunct1])
  from a have 3: "length ds \<le> INT_MAX_STR_DIGITS"
    by (rule conjunct2[THEN conjunct2])
  from search_confidence_leftmost[OF 1 2] obtain m where
    m: "re_search IGNORECASE confidence_re content = Some m" and g: "group m 1 = ds"
    by (elim exE conjE)
  from confidence_Some[OF m, of t] 3
  show "\<exists>a. extract_analysis_fields content t = Inr a \<and>
           confidence a =
             min 100 (max 0 (\<Sum>i<length ds. (of_char (ds ! i) - 48) * 10 ^ (length ds - Suc i)))"
    unfolding g digits_value_sum[of ds] by simp
next
  assume "\<forall>k ds'. \<not> confidence_label (drop k content) ds'"
  then have "re_search IGNORECASE confidence_re content = None"
    by (rule search_confidence_absent)
  then show "\<exists>a. extract_analysis_fields content t = Inr a \<and> confidence a = 50"
    by (rule confidence_None)
qed

text \<open>
  A labelled confidence of more digits than the interpreter converts: extraction raises.
\<close>

lemma overlong_confidence:
  assumes "confidence_label (drop k content) ds"
    and "\<forall>j<k. \<forall>ds'. \<not> confidence_label (drop j content) ds'"
    and "length ds > INT_MAX_STR_DIGITS"
  shows "extract_analysis_fields content t = Inl ValueError"
proof -
  from search_confidence_leftmost[OF assms(1,2)] obtain m where
    m: "re_search IGNORECASE confidence_re content = Some m" and g: "group m 1 = ds"
    by (elim exE conjE)
  from assms(3) have "length (group m 1) > INT_MAX_STR_DIGITS" unfolding g .
  with m show ?thesis by (rule scans_raise)
qed

lemma label_of_nines: "confidence_label (''CONFIDENCE: '' @ replicate (Suc n) CHR ''9'')
                         (replicate (Suc n) CHR ''9'')"
proof -
  have 1: "''CONFIDENCE: '' @ replicate (Suc n) CHR ''9'' =
           ''CONFIDENCE'' @ '': '' @ replicate (Suc n) CHR ''9'' @ []" by simp
  have 2: "\<forall>c\<in>set '': ''. c = CHR '':'' \<or> py_isspace c"
    by (simp add: py_isspace_def WHITESPACE_def)
  have 3: "replicate (Suc n) CHR ''9'' \<noteq> []" by simp
  have 4: "\<forall>c\<in>set (replicate (Suc n) CHR ''9''). py_isdigit c"
    by (simp add: py_isdigit_def)
  have 5: "([]::string) = [] \<or> \<not> py_isdigit (hd [])" by simp
  show ?thesis
    unfolding confidence_label_def
    by (rule exI[of _ "''CONFIDENCE''"], rule exI[of _ "'': ''"], rule exI[of _ "[]"])
       (intro conjI 1 lower_CONFIDENCE 2 3 4 5)
qed

lemma overlong_confidence_raises:
  "extract_analysis_fields (''CONFIDENCE: '' @ replicate (Suc INT_MAX_STR_DIGITS) CHR ''9'') t =
     Inl ValueError"
proof (rule overlong_confidence[where k = 0])
  show "confidence_label
          (drop 0 (''CONFIDENCE: '' @ replicate (Suc INT_MAX_STR_DIGITS) CHR ''9''))
          (replicate (Suc INT_MAX_STR_DIGITS) CHR ''9'')"
    unfolding drop_0 by (rule label_of_nines)
  show "\<forall>j<0. \<forall>ds'. \<not> confidence_label
          (drop j (''CONFIDENCE: '' @ replicate (Suc INT_MAX_STR_DIGITS) CHR ''9'')) ds'"
    by simp
  show "INT_MAX_STR_DIGITS < length (replicate (Suc INT_MAX_STR_DIGITS) CHR ''9'')"
    by simp
qed

lemma drop_in_suffixes: "drop k s \<in> set (suffixes s)"
  by (simp add: in_set_suffixes suffix_drop)

lemma no_label_anywhere:
  assumes "\<forall>t\<in>set (suffixes s). confidence_digits t = None"
  shows "\<forall>k ds'. \<not> confidence_label (drop k s) ds'"
proof (intro allI notI)
  fix k ds' assume "confidence_label (drop k s) ds'"
  then have "confidence_digits (drop k s) = Some ds'" by (rule label_imp_digits)
  with assms drop_in_suffixes[of k s] show False by simp
qed

theorem confidence_clamped_witness:
  "confidence_label ''confidence: 7%\<newline>CONFIDENCE: 90'' ''7'' \<and>
   (\<exists>a. extract_analysis_fields ''confidence: 7%\<newline>CONFIDENCE: 90'' (PyInt 0) = Inr a \<and>
        confidence a = 7) \<and>
   confidence_label ''CONFIDENCE: 150%'' ''150'' \<and>
   (\<exists>a. extract_analysis_fields ''CONFIDENCE: 150%'' (PyInt 0) = Inr a \<and> confidence a = 100) \<and>
   (\<exists>a. extract_analysis_fields ''CONFIDENCE: high'' (PyInt 0) = Inr a \<and> confidence a = 50)"
proof -
  have "confidence_digits ''confidence: 7%\<newline>CONFIDENCE: 90'' = Some ''7''"
    by (simp add: confidence_digits_def py_lower_def py_lower_char_def UPPERCASE_def
          LOWERCASE_def py_isspace_def WHITESPACE_def py_isdigit_def)
  then have 1: "confidence_label (drop 0 ''confidence: 7%\<newline>CONFIDENCE: 90'') ''7''"
    by (simp add: digits_imp_label)
  have 2: "\<forall>j<0::nat. \<forall>ds'.
             \<not> confidence_label (drop j ''confidence: 7%\<newline>CONFIDENCE: 90'') ds'"
    by simp
  have 3: "length ''7'' \<le> INT_MAX_STR_DIGITS" by (simp add: INT_MAX_STR_DIGITS_def)
  have "confidence_digits ''CONFIDENCE: 150%'' = Some ''150''"
    by (simp add: confidence_digits_def py_lower_def py_lower_char_def UPPERCASE_def
          LOWERCASE_def py_isspace_def WHITESPACE_def py_isdigit_def)
  then have 4: "confidence_label (drop 0 ''CONFIDENCE: 150%'') ''150''"
    by (simp add: digits_imp_label)
  have 5: "\<forall>j<0::nat. \<forall>ds'. \<not> confidence_label (drop j ''CONFIDENCE: 150%'') ds'" by simp
  have 6: "length ''150'' \<le> INT_MAX_STR_DIGITS" by (simp add: INT_MAX_STR_DIGITS_def)
  have "\<forall>t\<in>set (suffixes ''CONFIDENCE: high''). confidence_digits t = None"
    by (simp add: confidence_digits_def py_lower_def py_lower_char_def UPPERCASE_def
          LOWERCASE_def py_isspace_def WHITESPACE_def py_isdigit_def)
  then have 7: "\<forall>k ds'. \<not> confidence_label (drop k ''CONFIDENCE: high'') ds'"
    by (rule no_label_anywhere)
  have v7: "(\<Sum>i<length ''7''. (of_char (''7'' ! i) - 48) * 10 ^ (length ''7'' - Suc i)) =
            (7::int)"
    by simp
  have v150: "(\<Sum>i<length ''150''.
                 (of_char (''150'' ! i) - 48) * 10 ^ (length ''150'' - Suc i)) = (150::int)"
    by (simp add: lessThan_Suc)
  from confidence_clamped[of 0 "''confidence: 7%\<newline>CONFIDENCE: 90''" "''7''" "PyInt 0",
         THEN conjunct1, THEN mp, OF conjI[OF 1 conjI[OF 2 3]]]
       confidence_clamped[of 0 "''CONFIDENCE: 150%''" "''150''" "PyInt 0", THEN conjunct1,
         THEN mp, OF conjI[OF 4 conjI[OF 5 6]]]
       confidence_clamped[of 0 "''CONFIDENCE: high''" "''150''" "PyInt 0", THEN conjunct2,
         THEN mp, OF 7]
       1 4
  show ?thesis unfolding v7 v150 by simp
qed

section \<open>Replies without a root cause\<close>

theorem fallback_result_witness:
  "re_search IGNORECASE confidence_re ''short\<newline>  The build ran out of disk space  '' = None \<and>
   scans ''short\<newline>  The build ran out of disk space  '' (PyInt 0) =
     Inr \<lparr>root_cause = [], suggested_fixes = [], confidence = 50, severity = ''medium'',
          tokens_used = PyInt 0\<rparr> \<and>
   extract_analysis_fields ''short\<newline>  The build ran out of disk space  '' (PyInt 0) =
     Inr \<lparr>root_cause = ''The build ran out of disk space'', suggested_fixes = GENERIC_FIXES,
          confidence = 50, severity = ''medium'', tokens_used = PyInt 0\<rparr> \<and>
   re_search IGNORECASE confidence_re ''Suggested Fixes:\<newline>* Clear the cache'' = None \<and>
   scans ''Suggested Fixes:\<newline>* Clear the cache'' (PyInt 0) =
     Inr \<lparr>root_cause = [], suggested_fixes = [''Clear the cache''], confidence = 50,
          severity = ''medium'', tokens_used = PyInt 0\<rparr> \<and>
   extract_analysis_fields ''Suggested Fixes:\<newline>* Clear the cache'' (PyInt 0) =
     Inr \<lparr>root_cause = [], suggested_fixes = [''Clear the cache''], confidence = 50,
          severity = ''medium'', tokens_used = PyInt 0\<rparr>"
proof -
  have n1: "re_search IGNORECASE confidence_re
              ''short\<newline>  The build ran out of disk space  '' = None"
    by (simp add: confidence_re_def eval_simps del: cmatch.simps(1) search_from.simps(2))
  have s1: "scans ''short\<newline>  The build ran out of disk space  '' (PyInt 0) =
     Inr \<lparr>root_cause = [], suggested_fixes = [], confidence = 50, severity = ''medium'',
          tokens_used = PyInt 0\<rparr>"
    by (simp add: scan_defs eval_simps del: cmatch.simps(1) search_from.simps(2))
  have n2: "re_search IGNORECASE confidence_re ''Suggested Fixes:\<newline>* Clear the cache'' = None"
    by (simp add: confidence_re_def eval_simps del: cmatch.simps(1) search_from.simps(2))
  have s2: "scans ''Suggested Fixes:\<newline>* Clear the cache'' (PyInt 0) =
     Inr \<lparr>root_cause = [], suggested_fixes = [''Clear the cache''], confidence = 50,
          severity = ''medium'', tokens_used = PyInt 0\<rparr>"
    by (simp add: scan_defs eval_simps del: cmatch.simps(1) search_from.simps(2))
  have f: "find (\<lambda>line. 10 < length (py_strip line))
             (py_split_nl ''short\<newline>  The build ran out of disk space  '') =
           Some ''  The build ran out of disk space  ''"
    by (simp add: py_strip_def py_isspace_def WHITESPACE_def)
  have p: "py_strip ''  The build ran out of disk space  '' = ''The build ran out of disk space''"
    by (simp add: py_strip_def py_isspace_def WHITESPACE_def)
  from fallback_result[of "''short\<newline>  The build ran out of disk space  ''" "PyInt 0"] n1
  have e1: "extract_analysis_fields ''short\<newline>  The build ran out of disk space  '' (PyInt 0) =
     Inr \<lparr>root_cause = ''The build ran out of disk space'', suggested_fixes = GENERIC_FIXES,
          confidence = 50, severity = ''medium'', tokens_used = PyInt 0\<rparr>"
    unfolding s1 f by (simp add: p)
  from fallback_result[of "''Suggested Fixes:\<newline>* Clear the cache''" "PyInt 0"] n2
  have e2: "extract_analysis_fields ''Suggested Fixes:\<newline>* Clear the cache'' (PyInt 0) =
     Inr \<lparr>root_cause = [], suggested_fixes = [''Clear the cache''], confidence = 50,
          severity = ''medium'', tokens_used = PyInt 0\<rparr>"
    unfolding s2 by simp
  show ?thesis by (intro conjI n1 s1 e1 n2 s2 e2)
qed

end
